theory Spec2Isabelle
  imports Main "HOL-Library.Word" "HOL-Library.Multiset"
begin

section \<open>JSON values and the platform functions the client calls\<close>

text \<open>
  The client (\<open>src/frontend/web/src/App.tsx\<close>) keeps every record as JSON text in the
  contract's key/value storage. The values that \<open>JSON.parse\<close> can return are the
  datatype below. Strings are lists of 8-bit characters, so a code unit above 0xFF is
  not representable; numbers are unbounded integers, where JavaScript has doubles: the
  model reads and prints integer literals exactly, and a number literal with a fraction
  or an exponent is outside the model (the parser below rejects it).
  An object is the list of its members in insertion order, with distinct keys.
\<close>

datatype json = JNull | JBool bool | JNum int | JStr string
  | JArr "json list" | JObj "(string \<times> json) list"

subsection \<open>Number to string\<close>

definition digit_char :: "nat \<Rightarrow> char" where
  "digit_char d = ''0123456789abcdef'' ! d"

fun show_nat :: "nat \<Rightarrow> string" where
  "show_nat n = (if n < 10 then [digit_char n] else show_nat (n div 10) @ [digit_char (n mod 10)])"

declare show_nat.simps [simp del]

text \<open>The decimal form of an integer, as \<open>Number.prototype.toString\<close> gives it below 1e21.\<close>

definition show_int :: "int \<Rightarrow> string" where
  "show_int i = (if i < 0 then CHR ''-'' # show_nat (nat (- i)) else show_nat (nat i))"

subsection \<open>\<open>JSON.stringify\<close>\<close>

text \<open>
  \<open>QuoteJSONString\<close>: the quotation mark and the backslash are escaped, the control
  characters below 0x20 are written with their short escape or as \<open>\u00XX\<close>.
\<close>

definition escape_char :: "char \<Rightarrow> string" where
  "escape_char c =
     (if c = CHR 0x22 then [CHR 0x5C, CHR 0x22]
      else if c = CHR 0x5C then [CHR 0x5C, CHR 0x5C]
      else if c = CHR 0x08 then [CHR 0x5C, CHR ''b'']
      else if c = CHR 0x0C then [CHR 0x5C, CHR ''f'']
      else if c = CHR 0x0A then [CHR 0x5C, CHR ''n'']
      else if c = CHR 0x0D then [CHR 0x5C, CHR ''r'']
      else if c = CHR 0x09 then [CHR 0x5C, CHR ''t'']
      else if of_char c < (32::nat) then
        [CHR 0x5C, CHR ''u'', CHR ''0'', CHR ''0'',
         digit_char (of_char c div 16), digit_char (of_char c mod 16)]
      else [c])"

definition quote :: "string \<Rightarrow> string" where
  "quote s = CHR 0x22 # concat (map escape_char s) @ [CHR 0x22]"

fun commas :: "string list \<Rightarrow> string" where
  "commas [] = []"
| "commas [x] = x"
| "commas (x # y # zs) = x @ CHR '','' # commas (y # zs)"

fun JSON_stringify :: "json \<Rightarrow> string" where
  "JSON_stringify JNull = ''null''"
| "JSON_stringify (JBool b) = (if b then ''true'' else ''false'')"
| "JSON_stringify (JNum n) = show_int n"
| "JSON_stringify (JStr s) = quote s"
| "JSON_stringify (JArr xs) = CHR ''['' # commas (map JSON_stringify xs) @ '']''"
| "JSON_stringify (JObj kvs) =
     CHR ''{'' # commas (map (\<lambda>kv. quote (fst kv) @ CHR '':'' # JSON_stringify (snd kv)) kvs) @ ''}''"

subsection \<open>\<open>JSON.parse\<close>\<close>

definition is_ws :: "char \<Rightarrow> bool" where
  "is_ws c = (c = CHR '' '' \<or> c = CHR 0x09 \<or> c = CHR 0x0A \<or> c = CHR 0x0D)"

definition skip_ws :: "string \<Rightarrow> string" where
  "skip_ws s = dropWhile is_ws s"

definition is_digit :: "char \<Rightarrow> bool" where
  "is_digit c = (48 \<le> (of_char c :: nat) \<and> (of_char c :: nat) \<le> 57)"

definition digit_val :: "char \<Rightarrow> nat" where
  "digit_val c = of_char c - 48"

definition nat_of_digits :: "string \<Rightarrow> nat" where
  "nat_of_digits ds = foldl (\<lambda>a c. 10 * a + digit_val c) 0 ds"

definition hex_val :: "char \<Rightarrow> nat option" where
  "hex_val c =
     (let n = (of_char c :: nat) in
      if 48 \<le> n \<and> n \<le> 57 then Some (n - 48)
      else if 97 \<le> n \<and> n \<le> 102 then Some (n - 87)
      else if 65 \<le> n \<and> n \<le> 70 then Some (n - 55)
      else None)"

text \<open>
  The code unit of \<open>\uXXXX\<close>; \<open>None\<close> for a malformed escape and for a code unit
  above 0xFF, which a \<open>string\<close> cannot hold.
\<close>

definition hex4 :: "char \<Rightarrow> char \<Rightarrow> char \<Rightarrow> char \<Rightarrow> char option" where
  "hex4 a b c d =
     (case (hex_val a, hex_val b, hex_val c, hex_val d) of
        (Some x, Some y, Some z, Some w) \<Rightarrow>
          (let n = ((x * 16 + y) * 16 + z) * 16 + w in
           if n < 256 then Some (char_of n) else None)
      | _ \<Rightarrow> None)"

definition unescape :: "char \<Rightarrow> char option" where
  "unescape e =
     (if e = CHR 0x22 then Some (CHR 0x22)
      else if e = CHR 0x5C then Some (CHR 0x5C)
      else if e = CHR ''/'' then Some (CHR ''/'')
      else if e = CHR ''b'' then Some (CHR 0x08)
      else if e = CHR ''f'' then Some (CHR 0x0C)
      else if e = CHR ''n'' then Some (CHR 0x0A)
      else if e = CHR ''r'' then Some (CHR 0x0D)
      else if e = CHR ''t'' then Some (CHR 0x09)
      else None)"

definition consing :: "'a \<Rightarrow> ('a list \<times> 'b) option \<Rightarrow> ('a list \<times> 'b) option" where
  "consing x r = map_option (\<lambda>p. (x # fst p, snd p)) r"

text \<open>The characters of a string literal, read after its opening quotation mark.\<close>

fun parse_string :: "string \<Rightarrow> (string \<times> string) option" where
  "parse_string [] = None"
| "parse_string (c # r) =
     (if c = CHR 0x22 then Some ([], r)
      else if c = CHR 0x5C then
        (case r of
           [] \<Rightarrow> None
         | e # r1 \<Rightarrow>
             if e = CHR ''u'' then
               (case r1 of
                  h1 # h2 # h3 # h4 # r2 \<Rightarrow>
                    (case hex4 h1 h2 h3 h4 of
                       None \<Rightarrow> None
                     | Some ch \<Rightarrow> consing ch (parse_string r2))
                | _ \<Rightarrow> None)
             else
               (case unescape e of
                  None \<Rightarrow> None
                | Some ch \<Rightarrow> consing ch (parse_string r1)))
      else if of_char c < (32::nat) then None
      else consing c (parse_string r))"

text \<open>The digits of the integer part: a single 0, or a run of digits that starts above 0.\<close>

definition int_digits :: "string \<Rightarrow> string" where
  "int_digits s =
     (case s of [] \<Rightarrow> []
      | c # _ \<Rightarrow> if c = CHR ''0'' then [c] else takeWhile is_digit s)"

definition frac_or_exp :: "string \<Rightarrow> bool" where
  "frac_or_exp r =
     (case r of [] \<Rightarrow> False | c # _ \<Rightarrow> c = CHR ''.'' \<or> c = CHR ''e'' \<or> c = CHR ''E'')"

definition parse_number :: "string \<Rightarrow> (json \<times> string) option" where
  "parse_number s =
     (let neg = (case s of [] \<Rightarrow> False | c # _ \<Rightarrow> c = CHR ''-'');
          s1 = (if neg then tl s else s);
          ds = int_digits s1;
          r = drop (length ds) s1;
          n = int (nat_of_digits ds)
      in if ds = [] then None
         else if frac_or_exp r then None
         else Some (JNum (if neg then - n else n), r))"

definition literal :: "string \<Rightarrow> json \<Rightarrow> string \<Rightarrow> (json \<times> string) option" where
  "literal w v s = (if take (length w) s = w then Some (v, drop (length w) s) else None)"

text \<open>
  \<open>CreateDataProperty\<close> on an object under construction: a key that is already there
  keeps its place and takes the new value, a new key goes to the end. (JavaScript lists
  integer-like keys first; the model keeps them where they were written.)
\<close>

fun obj_put :: "(string \<times> json) list \<Rightarrow> string \<Rightarrow> json \<Rightarrow> (string \<times> json) list" where
  "obj_put [] k v = [(k, v)]"
| "obj_put (p # ps) k v = (if fst p = k then (k, v) # ps else p # obj_put ps k v)"

definition obj_of_members :: "(string \<times> json) list \<Rightarrow> json" where
  "obj_of_members kvs = JObj (foldl (\<lambda>acc kv. obj_put acc (fst kv) (snd kv)) [] kvs)"

text \<open>
  The recursive-descent parser: a value, the elements of an array after its opening
  bracket, the members of an object after its opening brace. Each returns what it read
  and the rest of the text, or \<open>None\<close> for a SyntaxError. The tests on lengths in
  \<open>parse_elems\<close> and \<open>parse_members\<close> carry the termination proof; they hold
  whenever they are reached, since the rest of a parse is shorter than its input
  (\<open>parse_rest_shorter\<close>), and the lemmas \<open>parse_elems_unguarded\<close> and
  \<open>parse_members_unguarded\<close> give the equations without them.
\<close>

function parse_value :: "string \<Rightarrow> (json \<times> string) option"
  and parse_elems :: "string \<Rightarrow> (json list \<times> string) option"
  and parse_members :: "string \<Rightarrow> ((string \<times> json) list \<times> string) option"
where
  "parse_value s =
     (case skip_ws s of
        [] \<Rightarrow> None
      | c # r \<Rightarrow>
          if c = CHR ''['' then
            (case skip_ws r of
               [] \<Rightarrow> None
             | c' # r' \<Rightarrow>
                 if c' = CHR '']'' then Some (JArr [], r')
                 else map_option (\<lambda>p. (JArr (fst p), snd p)) (parse_elems r))
          else if c = CHR ''{'' then
            (case skip_ws r of
               [] \<Rightarrow> None
             | c' # r' \<Rightarrow>
                 if c' = CHR ''}'' then Some (JObj [], r')
                 else map_option (\<lambda>p. (obj_of_members (fst p), snd p)) (parse_members r))
          else if c = CHR 0x22 then map_option (\<lambda>p. (JStr (fst p), snd p)) (parse_string r)
          else if c = CHR ''t'' then literal ''true'' (JBool True) (c # r)
          else if c = CHR ''f'' then literal ''false'' (JBool False) (c # r)
          else if c = CHR ''n'' then literal ''null'' JNull (c # r)
          else parse_number (c # r))"
| "parse_elems s =
     (case parse_value s of
        None \<Rightarrow> None
      | Some (v, r) \<Rightarrow>
          (case skip_ws r of
             [] \<Rightarrow> None
           | c # r' \<Rightarrow>
               if c = CHR '','' then
                 (if length r' < length s then consing v (parse_elems r') else None)
               else if c = CHR '']'' then Some ([v], r')
               else None))"
| "parse_members s =
     (case skip_ws s of
        [] \<Rightarrow> None
      | q # r \<Rightarrow>
          if q \<noteq> CHR 0x22 then None
          else
            (case parse_string r of
               None \<Rightarrow> None
             | Some (k, r1) \<Rightarrow>
                 (case skip_ws r1 of
                    [] \<Rightarrow> None
                  | c # r2 \<Rightarrow>
                      if c \<noteq> CHR '':'' \<or> \<not> length r2 < length s then None
                      else
                        (case parse_value r2 of
                           None \<Rightarrow> None
                         | Some (v, r3) \<Rightarrow>
                             (case skip_ws r3 of
                                [] \<Rightarrow> None
                              | c' # r4 \<Rightarrow>
                                  if c' = CHR '','' then
                                    (if length r4 < length s
                                     then consing (k, v) (parse_members r4) else None)
                                  else if c' = CHR ''}'' then Some ([(k, v)], r4)
                                  else None)))))"
  by pat_completeness auto
termination
proof (relation "measure (\<lambda>x. case x of Inl s \<Rightarrow> 2 * length s
                      | Inr (Inl s) \<Rightarrow> 2 * length s + 1
                      | Inr (Inr s) \<Rightarrow> 2 * length s + 1)", goal_cases)
  case 1 show ?case by simp
next
  case (2 s c r c' r')
  have "length (skip_ws s) \<le> length s" by (simp add: skip_ws_def length_dropWhile_le)
  with 2 show ?case by simp
next
  case (3 s c r c' r')
  have "length (skip_ws s) \<le> length s" by (simp add: skip_ws_def length_dropWhile_le)
  with 3 show ?case by simp
qed simp_all

declare parse_value.simps [simp del] parse_elems.simps [simp del] parse_members.simps [simp del]

text \<open>\<open>JSON.parse(text)\<close>: one value, with nothing but white space after it.\<close>

definition JSON_parse :: "string \<Rightarrow> json option" where
  "JSON_parse s =
     (case parse_value s of
        None \<Rightarrow> None
      | Some (v, r) \<Rightarrow> if skip_ws r = [] then Some v else None)"

subsection \<open>UTF-8, base64, \<open>parseInt\<close>, \<open>ToString\<close>\<close>

text \<open>
  \<open>ethers.toUtf8Bytes\<close> and \<open>ethers.toUtf8String\<close> on the code units a \<open>string\<close>
  holds: one byte below 0x80, two bytes (lead 0xC2 or 0xC3) from 0x80 to 0xFF. Decoding
  fails, as ethers throws, on a malformed sequence; it also fails on the sequences of
  code points above U+00FF, which the model cannot represent.
\<close>

definition utf8_char :: "char \<Rightarrow> string" where
  "utf8_char c =
     (let n = (of_char c :: nat) in
      if n < 128 then [c] else [char_of (192 + n div 64), char_of (128 + n mod 64)])"

definition toUtf8Bytes :: "string \<Rightarrow> string" where
  "toUtf8Bytes s = concat (map utf8_char s)"

fun toUtf8String :: "string \<Rightarrow> string option" where
  "toUtf8String [] = Some []"
| "toUtf8String (b # bs) =
     (let n = (of_char b :: nat) in
      if n < 128 then map_option (Cons b) (toUtf8String bs)
      else if n = 194 \<or> n = 195 then
        (case bs of
           [] \<Rightarrow> None
         | b2 # r \<Rightarrow>
             (let m = (of_char b2 :: nat) in
              if 128 \<le> m \<and> m < 192
              then map_option (Cons (char_of ((n - 192) * 64 + (m - 128)))) (toUtf8String r)
              else None))
      else None)"

text \<open>\<open>btoa\<close>: base64 with padding. Every character of a \<open>string\<close> is in its domain.\<close>

definition b64_char :: "nat \<Rightarrow> char" where
  "b64_char i = ''ABCDEFGHIJKLMNOPQRSTUVWXYZabcdefghijklmnopqrstuvwxyz0123456789+/'' ! i"

fun btoa :: "string \<Rightarrow> string" where
  "btoa [] = []"
| "btoa [a] =
     (let x = (of_char a :: nat) in
      [b64_char (x div 4), b64_char (x mod 4 * 16), CHR ''='', CHR ''=''])"
| "btoa [a, b] =
     (let x = (of_char a :: nat); y = (of_char b :: nat) in
      [b64_char (x div 4), b64_char (x mod 4 * 16 + y div 16), b64_char (y mod 16 * 4), CHR ''=''])"
| "btoa (a # b # c # r) =
     (let x = (of_char a :: nat); y = (of_char b :: nat); z = (of_char c :: nat) in
      [b64_char (x div 4), b64_char (x mod 4 * 16 + y div 16),
       b64_char (y mod 16 * 4 + z div 64), b64_char (z mod 64)] @ btoa r)"

text \<open>
  \<open>parseInt(input)\<close> with no radix: leading white space is dropped, then a sign, then a
  \<open>0x\<close> prefix selects radix 16; the value is that of the longest run of digits, and
  \<open>None\<close> (NaN) when there is no digit. The value is exact here; JavaScript rounds it to
  a double.
\<close>

definition is_js_space :: "char \<Rightarrow> bool" where
  "is_js_space c = ((of_char c :: nat) \<in> {9, 10, 11, 12, 13, 32, 160})"

definition radix_digit :: "nat \<Rightarrow> char \<Rightarrow> nat option" where
  "radix_digit radix c =
     (let n = (of_char c :: nat);
          d = (if 48 \<le> n \<and> n \<le> 57 then Some (n - 48)
               else if 97 \<le> n \<and> n \<le> 122 then Some (n - 87)
               else if 65 \<le> n \<and> n \<le> 90 then Some (n - 55)
               else None)
      in case d of None \<Rightarrow> None | Some v \<Rightarrow> if v < radix then Some v else None)"

definition parseInt :: "string \<Rightarrow> int option" where
  "parseInt input =
     (let s1 = dropWhile is_js_space input;
          neg = (case s1 of [] \<Rightarrow> False | c # _ \<Rightarrow> c = CHR ''-'');
          s2 = (case s1 of [] \<Rightarrow> [] | c # r \<Rightarrow> if c = CHR ''-'' \<or> c = CHR ''+'' then r else s1);
          hex = (case s2 of z # x # _ \<Rightarrow> z = CHR ''0'' \<and> (x = CHR ''x'' \<or> x = CHR ''X'') | _ \<Rightarrow> False);
          radix = (if hex then 16 else 10);
          s3 = (if hex then drop 2 s2 else s2);
          ds = takeWhile (\<lambda>c. radix_digit radix c \<noteq> None) s3;
          n = int (foldl (\<lambda>a c. radix * a + (case radix_digit radix c of None \<Rightarrow> 0 | Some d \<Rightarrow> d)) 0 ds)
      in if ds = [] then None else Some (if neg then - n else n))"

text \<open>
  \<open>ToString\<close> of a parsed value, as a template literal applies it. An array joins the
  strings of its elements with commas, \<open>null\<close> giving the empty string; an object is
  \<open>[object Object]\<close>, unless it has an own member \<open>toString\<close>, which is not callable
  and makes the conversion throw a TypeError (\<open>None\<close>).
\<close>

fun to_string :: "json \<Rightarrow> string option" where
  "to_string JNull = Some ''null''"
| "to_string (JBool b) = Some (if b then ''true'' else ''false'')"
| "to_string (JNum n) = Some (show_int n)"
| "to_string (JStr s) = Some s"
| "to_string (JArr xs) =
     map_option commas (those (map (\<lambda>x. if x = JNull then Some [] else to_string x) xs))"
| "to_string (JObj kvs) =
     (if ''toString'' \<in> fst ` set kvs then None else Some ''[object Object]'')"

section \<open>The client store adapter (App.tsx)\<close>

subsection \<open>Contract storage and the session\<close>

text \<open>
  Modelled from the spec: the module \<open>./contract\<close> and the contract functions
  \<open>isAvailable\<close>, \<open>getData\<close> and \<open>setData\<close> are not among the sources. The spec
  gives the interface \<open>getData(key: string) -> bytes\<close>, \<open>setData(key: string, value:
  bytes) -> transaction\<close> over string-keyed byte storage. The storage is a function
  from keys to byte strings, a key never written holding the empty byte string, and
  \<open>.length\<close> of what \<open>getData\<close> returns is its number of bytes.
\<close>

type_synonym bytes = string
type_synonym storage = "string \<Rightarrow> bytes"

text \<open>
  What an action finds around it: the React state \<open>provider\<close> (the wallet is connected)
  and \<open>account\<close>, whether \<open>getContractWithSigner()\<close> and \<open>getContractReadOnly()\<close>
  return a contract, what \<open>isAvailable()\<close> answers, and whether a \<open>setData\<close>
  transaction goes through or is rejected (the awaited call then throws).
\<close>

record session =
  provider :: bool
  account :: string
  signer_contract :: bool
  readonly_contract :: bool
  isAvailable :: bool
  tx_accepted :: "string \<Rightarrow> bytes \<Rightarrow> bool"

datatype js_error = Error string | TypeError | SyntaxError | TxRejected

definition getData :: "storage \<Rightarrow> string \<Rightarrow> bytes" where
  "getData st key = st key"

definition setData :: "session \<Rightarrow> storage \<Rightarrow> string \<Rightarrow> bytes \<Rightarrow> js_error + storage" where
  "setData env st key val =
     (if tx_accepted env key val then Inr (st(key := val)) else Inl TxRejected)"

text \<open>\<open>JSON.parse(ethers.toUtf8String(b))\<close> and \<open>ethers.toUtf8Bytes(JSON.stringify(v))\<close>.\<close>

definition parse_bytes :: "bytes \<Rightarrow> js_error + json" where
  "parse_bytes b =
     (case toUtf8String b of
        None \<Rightarrow> Inl (Error ''invalid codepoint'')
      | Some text \<Rightarrow> (case JSON_parse text of None \<Rightarrow> Inl SyntaxError | Some v \<Rightarrow> Inr v))"

definition to_bytes :: "json \<Rightarrow> bytes" where
  "to_bytes v = toUtf8Bytes (JSON_stringify v)"

subsection \<open>Reading the index (lines 105-114 and, word for word, 201-210)\<close>

text \<open>
  \<^verbatim>\<open>const keysBytes = await contract.getData("training_keys");
  let keys: string[] = [];
  if (keysBytes.length > 0) {
    try { keys = JSON.parse(ethers.toUtf8String(keysBytes)); }
    catch (e) { console.error(...); }
  }\<close>
  The result is whatever value the stored text parses to, an array or not.
\<close>

definition read_keys :: "storage \<Rightarrow> json" where
  "read_keys st =
     (let keysBytes = getData st ''training_keys'' in
      if length keysBytes > 0
      then (case parse_bytes keysBytes of Inl e \<Rightarrow> JArr [] | Inr v \<Rightarrow> v)
      else JArr [])"

subsection \<open>loadRecords (lines 92-151)\<close>

text \<open>A property read \<open>v.name\<close> yields a value or \<open>undefined\<close> (\<open>None\<close>).\<close>

type_synonym jsval = "json option"

text \<open>
  \<open>recordData.name\<close> for the seven names the client reads (data, timestamp, owner,
  category, cognitiveScore, trainingPlan, status): the member of an object; undefined on
  a number, a boolean, a string or an array, none of which has a property of these
  names. (On \<open>null\<close> the read throws; the caller handles that case.)
\<close>

definition get_field :: "json \<Rightarrow> string \<Rightarrow> jsval" where
  "get_field v name = (case v of JObj kvs \<Rightarrow> map_of kvs name | _ \<Rightarrow> None)"

definition truthy :: "jsval \<Rightarrow> bool" where
  "truthy v =
     (case v of
        None \<Rightarrow> False
      | Some JNull \<Rightarrow> False
      | Some (JBool b) \<Rightarrow> b
      | Some (JNum n) \<Rightarrow> n \<noteq> 0
      | Some (JStr s) \<Rightarrow> s \<noteq> []
      | Some (JArr _) \<Rightarrow> True
      | Some (JObj _) \<Rightarrow> True)"

text \<open>\<open>v || d\<close> with a default \<open>d\<close> that is a value.\<close>

definition or_else :: "jsval \<Rightarrow> json \<Rightarrow> json" where
  "or_else v d = (case v of None \<Rightarrow> d | Some x \<Rightarrow> if truthy v then x else d)"

text \<open>
  The interface \<open>TrainingRecord\<close> with the values its fields hold at run time: the id is
  the element of the index as parsed, four fields are property reads, three have
  defaults.
\<close>

record TrainingRecord =
  id' :: json
  encryptedData :: jsval
  timestamp :: jsval
  owner :: jsval
  category :: jsval
  cognitiveScore :: json
  trainingPlan :: json
  status :: json

definition record_key :: "string \<Rightarrow> string" where
  "record_key rid = ''training_'' @ rid"

text \<open>The object pushed on the list (lines 124-133), for \<open>recordData\<close> other than null.\<close>

definition decode_record :: "json \<Rightarrow> json \<Rightarrow> TrainingRecord" where
  "decode_record key recordData =
     \<lparr> id' = key,
       encryptedData = get_field recordData ''data'',
       timestamp = get_field recordData ''timestamp'',
       owner = get_field recordData ''owner'',
       category = get_field recordData ''category'',
       cognitiveScore = or_else (get_field recordData ''cognitiveScore'') (JNum 0),
       trainingPlan = or_else (get_field recordData ''trainingPlan'') (JStr ''Custom FHE Plan''),
       status = or_else (get_field recordData ''status'') (JStr ''pending'') \<rparr>"

text \<open>
  The body of the loop (lines 119-140) for one key: the record it pushes, or \<open>None\<close>
  when it pushes nothing. Every throw inside is caught and logged by one of the two
  \<open>try\<close> blocks: a key whose \<open>ToString\<close> throws, bytes that do not decode or parse,
  and the TypeError of reading \<open>.data\<close> of \<open>null\<close>.
\<close>

definition load_record :: "storage \<Rightarrow> json \<Rightarrow> TrainingRecord option" where
  "load_record st key =
     (case to_string key of
        None \<Rightarrow> None
      | Some k \<Rightarrow>
          (let recordBytes = getData st (record_key k) in
           if length recordBytes > 0 then
             (case parse_bytes recordBytes of
                Inl e \<Rightarrow> None
              | Inr recordData \<Rightarrow>
                  if recordData = JNull then None else Some (decode_record key recordData))
           else None))"







subsection \<open>submitRecord (lines 153-253)\<close>

text \<open>The form state \<open>newRecordData\<close>; all three fields are strings.\<close>

record newRecordData =
  form_category :: string
  form_cognitiveScore :: string
  form_trainingNotes :: string

text \<open>\<^verbatim>\<open>`FHE-ENCRYPTED-${btoa(JSON.stringify(newRecordData))}`\<close>\<close>

definition encrypt_form :: "newRecordData \<Rightarrow> string" where
  "encrypt_form form =
     ''FHE-ENCRYPTED-'' @
     btoa (JSON_stringify (JObj [(''category'', JStr (form_category form)),
                                 (''cognitiveScore'', JStr (form_cognitiveScore form)),
                                 (''trainingNotes'', JStr (form_trainingNotes form))]))"

text \<open>
  \<^verbatim>\<open>`${Date.now()}-${Math.random().toString(36).substring(2, 9)}`\<close>: the clock reading
  and the random suffix are inputs.
\<close>

definition make_recordId :: "int \<Rightarrow> string \<Rightarrow> string" where
  "make_recordId now rnd = show_int now @ ''-'' @ rnd"

text \<open>\<^verbatim>\<open>const score = parseInt(newRecordData.cognitiveScore) || 50;\<close>\<close>

definition submitted_score :: "newRecordData \<Rightarrow> int" where
  "submitted_score form =
     (case parseInt (form_cognitiveScore form) of
        None \<Rightarrow> 50
      | Some n \<Rightarrow> if n = 0 then 50 else n)"

text \<open>The branch on the score (lines 181-183).\<close>

definition derive_plan :: "int \<Rightarrow> string" where
  "derive_plan score =
     (if score < 40 then ''Basic Cognitive Enhancement''
      else if score < 70 then ''Intermediate Brain Training''
      else ''Advanced Neural Development'')"

text \<open>The object \<open>recordData\<close> (lines 185-193); \<open>now\<close> is the second reading of the clock.\<close>

definition build_recordData :: "session \<Rightarrow> newRecordData \<Rightarrow> int \<Rightarrow> json" where
  "build_recordData env form now =
     (let score = submitted_score form in
      JObj [(''data'', JStr (encrypt_form form)),
            (''timestamp'', JNum (now div 1000)),
            (''owner'', JStr (account env)),
            (''category'', JStr (form_category form)),
            (''cognitiveScore'', JNum score),
            (''trainingPlan'', JStr (derive_plan score)),
            (''status'', JStr ''pending'')])"

text \<open>\<open>keys.push(recordId)\<close>: only an array has \<open>push\<close>; on any other value it is a TypeError.\<close>

definition keys_push :: "json \<Rightarrow> json \<Rightarrow> json option" where
  "keys_push keys v = (case keys of JArr xs \<Rightarrow> Some (JArr (xs @ [v])) | _ \<Rightarrow> None)"

text \<open>
  How an action ends: it ran to its success banner, it returned at once after the alert
  \<open>Please connect wallet first\<close>, or its \<open>catch\<close> block handled an error.
\<close>

datatype outcome = Done | Alerted | Failed js_error

text \<open>
  \<open>submitRecord\<close> returns how it ended and the storage it leaves. The record is written
  first, the index second, in two transactions; a failure after the first leaves the
  record written. The refresh of the list and the banner are not modelled.
\<close>

definition submitRecord ::
  "session \<Rightarrow> newRecordData \<Rightarrow> int \<Rightarrow> string \<Rightarrow> int \<Rightarrow> storage \<Rightarrow> outcome \<times> storage" where
  "submitRecord env form now_id rnd now_ts st =
     (if \<not> provider env then (Alerted, st)
      else if \<not> signer_contract env
      then (Failed (Error ''Failed to get contract with signer''), st)
      else
        (let recordId = make_recordId now_id rnd in
         case setData env st (record_key recordId) (to_bytes (build_recordData env form now_ts)) of
           Inl e \<Rightarrow> (Failed e, st)
         | Inr st1 \<Rightarrow>
             (case keys_push (read_keys st1) (JStr recordId) of
                None \<Rightarrow> (Failed TypeError, st1)
              | Some keys \<Rightarrow>
                  (case setData env st1 ''training_keys'' (to_bytes keys) of
                     Inl e \<Rightarrow> (Failed e, st1)
                   | Inr st2 \<Rightarrow> (Done, st2)))))"

subsection \<open>activateTraining and completeTraining (lines 255-371)\<close>

text \<open>
  The members that \<open>{...recordData}\<close> copies: those of an object; the indexed elements
  of an array or of a string; none for a number, a boolean or \<open>null\<close>.
\<close>

definition spread :: "json \<Rightarrow> (string \<times> json) list" where
  "spread v =
     (case v of
        JObj kvs \<Rightarrow> kvs
      | JArr xs \<Rightarrow> zip (map show_nat [0..<length xs]) xs
      | JStr s \<Rightarrow> zip (map show_nat [0..<length s]) (map (\<lambda>c. JStr [c]) s)
      | _ \<Rightarrow> [])"

text \<open>
  The two functions have the same body but for the status they write and the texts of
  their banners:
  \<^verbatim>\<open>const recordBytes = await contract.getData(`training_${recordId}`);
  if (recordBytes.length === 0) { throw new Error("Record not found"); }
  const recordData = JSON.parse(ethers.toUtf8String(recordBytes));
  const updatedRecord = { ...recordData, status: "active" };
  await contract.setData(`training_${recordId}`,
    ethers.toUtf8Bytes(JSON.stringify(updatedRecord)));\<close>
\<close>

definition set_status :: "string \<Rightarrow> session \<Rightarrow> string \<Rightarrow> storage \<Rightarrow> outcome \<times> storage" where
  "set_status new_status env recordId st =
     (if \<not> provider env then (Alerted, st)
      else if \<not> signer_contract env
      then (Failed (Error ''Failed to get contract with signer''), st)
      else
        (let recordBytes = getData st (record_key recordId) in
         if length recordBytes = 0 then (Failed (Error ''Record not found''), st)
         else
           (case parse_bytes recordBytes of
              Inl e \<Rightarrow> (Failed e, st)
            | Inr recordData \<Rightarrow>
                (let updatedRecord = JObj (obj_put (spread recordData) ''status'' (JStr new_status)) in
                 case setData env st (record_key recordId) (to_bytes updatedRecord) of
                   Inl e \<Rightarrow> (Failed e, st)
                 | Inr st' \<Rightarrow> (Done, st')))))"

definition activateTraining :: "session \<Rightarrow> string \<Rightarrow> storage \<Rightarrow> outcome \<times> storage" where
  "activateTraining = set_status ''active''"

definition completeTraining :: "session \<Rightarrow> string \<Rightarrow> storage \<Rightarrow> outcome \<times> storage" where
  "completeTraining = set_status ''completed''"

section \<open>Contract arithmetic (CognitiveEnhanceFHE, Solidity 0.8)\<close>

text \<open>
  A call of the contract either returns or reverts. \<open>Revert\<close> carries the message of a
  failed \<open>require\<close>; \<open>Panic\<close> carries the code of a compiler-inserted check
  (0x11 arithmetic overflow or underflow, 0x32 array index out of bounds);
  \<open>InvalidSignatures\<close> is the revert of \<open>FHE.checkSignatures\<close>.
\<close>

datatype revert = Revert string | Panic nat | InvalidSignatures

type_synonym uint32 = "32 word"
type_synonym uint256 = "256 word"

text \<open>
  \<^verbatim>\<open>return 100 - score;\<close> on \<open>uint32\<close> under checked arithmetic: the subtraction
  reverts with Panic(0x11) when the result would be negative.
\<close>

definition calculateTrainingIntensity :: "uint32 \<Rightarrow> revert + uint32" where
  "calculateTrainingIntensity score =
     (if 100 < score then Inl (Panic 0x11) else Inr (100 - score))"

text \<open>
  The FHE library (\<open>@fhevm/solidity\<close>) is third-party code that the contract only
  calls. An \<open>euint32\<close> is a handle on a ciphertext, and \<open>FHE.asEuint32\<close> makes the
  handle of a cleartext: the constructor \<open>Euint32\<close> stands for it, so that the plan
  records which cleartext each handle was made from.
\<close>

datatype euint32 = Euint32 uint32

record EncryptedTrainingPlan =
  planId :: uint256
  encryptedMemoryExercises :: euint32
  encryptedAttentionExercises :: euint32
  encryptedProcessingExercises :: euint32
  encryptedFlexibilityExercises :: euint32

record DecryptedRecommendation =
  memoryTraining :: uint32
  attentionTraining :: uint32
  processingTraining :: uint32
  flexibilityTraining :: uint32
  isGenerated :: bool

text \<open>The storage variables that \<open>generatePlan\<close> reads or writes.\<close>

record contract_state =
  trainingPlanCount :: uint256
  trainingPlans :: "uint256 \<Rightarrow> EncryptedTrainingPlan option"
  recommendations :: "uint256 \<Rightarrow> DecryptedRecommendation"
  requestToResultId :: "uint256 \<Rightarrow> uint256"

text \<open>Sequencing of calls that may revert: the first revert ends the call.\<close>

definition and_then :: "'e + 'a \<Rightarrow> ('a \<Rightarrow> 'e + 'b) \<Rightarrow> 'e + 'b" where
  "and_then m f = (case m of Inl e \<Rightarrow> Inl e | Inr v \<Rightarrow> f v)"

text \<open>\<open>results[i]\<close> on a memory array: Panic(0x32) when out of bounds.\<close>

definition index_u32 :: "uint32 list \<Rightarrow> nat \<Rightarrow> revert + uint32" where
  "index_u32 xs i = (if i < length xs then Inr (xs ! i) else Inl (Panic 0x32))"

text \<open>
  \<open>generatePlan(requestId, cleartexts, proof)\<close>. The two inputs that the contract hands
  to code outside the repository are arguments of the model: \<open>sigs_ok\<close> says whether
  \<open>FHE.checkSignatures\<close> returns, and \<open>results\<close> is the array that
  \<open>abi.decode(cleartexts, (uint32[]))\<close> yields. The emitted event is not modelled.
\<close>

definition generatePlan ::
  "uint256 \<Rightarrow> bool \<Rightarrow> uint32 list \<Rightarrow> contract_state \<Rightarrow> revert + contract_state" where
  "generatePlan requestId sigs_ok results s =
     (let resultId = requestToResultId s requestId in
      if resultId = 0 then Inl (Revert ''Invalid request'')
      else if \<not> sigs_ok then Inl InvalidSignatures
      else
        and_then (index_u32 results 0) (\<lambda>memoryScore.
        and_then (index_u32 results 1) (\<lambda>attentionScore.
        and_then (index_u32 results 2) (\<lambda>processingScore.
        and_then (index_u32 results 3) (\<lambda>flexibilityScore.
        and_then (calculateTrainingIntensity memoryScore) (\<lambda>memoryT.
        and_then (calculateTrainingIntensity attentionScore) (\<lambda>attentionT.
        and_then (calculateTrainingIntensity processingScore) (\<lambda>processingT.
        and_then (calculateTrainingIntensity flexibilityScore) (\<lambda>flexibilityT.
          if trainingPlanCount s = - 1 then Inl (Panic 0x11)
          else
            (let newPlanId = trainingPlanCount s + 1 in
             Inr (s\<lparr> trainingPlanCount := newPlanId,
                     trainingPlans := (trainingPlans s)(newPlanId \<mapsto>
                        \<lparr> planId = newPlanId,
                          encryptedMemoryExercises = Euint32 memoryT,
                          encryptedAttentionExercises = Euint32 attentionT,
                          encryptedProcessingExercises = Euint32 processingT,
                          encryptedFlexibilityExercises = Euint32 flexibilityT \<rparr>),
                     recommendations := (recommendations s)(resultId :=
                        \<lparr> memoryTraining = memoryT,
                          attentionTraining = attentionT,
                          processingTraining = processingT,
                          flexibilityTraining = flexibilityT,
                          isGenerated = True \<rparr>) \<rparr>)))))))))))"


section \<open>Notions used in the statements and proofs\<close>

text \<open>
  The values \<open>JSON.parse\<close> returns: the keys of every object are distinct.
\<close>

fun wf_json :: "json \<Rightarrow> bool" where
  "wf_json (JArr xs) = list_all wf_json xs"
| "wf_json (JObj kvs) = (distinct (map fst kvs) \<and> list_all (\<lambda>kv. wf_json (snd kv)) kvs)"
| "wf_json _ = True"

text \<open>A text that can follow a number without being read as part of it.\<close>

definition num_end :: "string \<Rightarrow> bool" where
  "num_end r = (case r of [] \<Rightarrow> True
     | c # _ \<Rightarrow> \<not> is_digit c \<and> c \<noteq> CHR ''.'' \<and> c \<noteq> CHR ''e'' \<and> c \<noteq> CHR ''E'')"

definition value_start :: "char \<Rightarrow> bool" where
  "value_start c = (\<not> is_ws c \<and> c \<noteq> CHR '']'' \<and> c \<noteq> CHR ''}'')"

definition member_text :: "string \<times> json \<Rightarrow> string" where
  "member_text kv = quote (fst kv) @ CHR '':'' # JSON_stringify (snd kv)"

text \<open>The ids in the index, as the client reads it; none if the index is not an array.\<close>

definition index_ids :: "storage \<Rightarrow> json list" where
  "index_ids st = (case read_keys st of JArr xs \<Rightarrow> xs | _ \<Rightarrow> [])"


text \<open>
  A sequence of submissions, each on the storage the one before left; \<open>None\<close> as soon
  as one of them does not succeed.
\<close>

fun submit_all ::
  "session \<Rightarrow> (newRecordData \<times> int \<times> string \<times> int) list \<Rightarrow> storage \<Rightarrow> storage option" where
  "submit_all env [] st = Some st"
| "submit_all env ((form, now_id, rnd, now_ts) # rest) st =
     (case submitRecord env form now_id rnd now_ts st of
        (Done, st') \<Rightarrow> submit_all env rest st'
      | _ \<Rightarrow> None)"

text \<open>The id a submission appends to the index.\<close>

fun sub_id :: "newRecordData \<times> int \<times> string \<times> int \<Rightarrow> json" where
  "sub_id (form, now_id, rnd, now_ts) = JStr (make_recordId now_id rnd)"

text \<open>A session in which every step of an action goes through.\<close>

definition open_session :: "string \<Rightarrow> session" where
  "open_session acc =
     \<lparr> provider = True, account = acc, signer_contract = True,
       readonly_contract = True, isAvailable = True, tx_accepted = (\<lambda>_ _. True) \<rparr>"

text \<open>A form and a storage with three indexed ids, the second holding text that does not parse.\<close>

definition demo_form :: newRecordData where
  "demo_form = \<lparr> form_category = ''Memory'', form_cognitiveScore = ''85'', form_trainingNotes = '''' \<rparr>"

definition demo_store :: storage where
  "demo_store =
     (\<lambda>_. [])
       (record_key ''a'' := to_bytes (JObj [(''timestamp'', JNum 5)]),
        record_key ''b'' := ''{'',
        record_key ''c'' := to_bytes (JObj [(''timestamp'', JNum 9), (''status'', JStr ''pending'')]),
        ''training_keys'' := to_bytes (JArr [JStr ''a'', JStr ''b'', JStr ''c'']))"

section \<open>The JSON text of a value parses back to the value\<close>


lemma digit_char_cases:
  "d < 10 \<Longrightarrow> d = 0 \<or> d = 1 \<or> d = 2 \<or> d = 3 \<or> d = 4 \<or> d = 5 \<or> d = 6 \<or> d = 7 \<or> d = 8 \<or> d = (9::nat)"
  by arith

lemma digit_char_props:
  assumes "d < 10"
  shows "is_digit (digit_char d)" and "digit_val (digit_char d) = d"
    and "(digit_char d = CHR ''0'') = (d = 0)" and "digit_char d \<noteq> CHR ''-''"
  using digit_char_cases [OF assms]
  by (auto simp: digit_char_def is_digit_def digit_val_def)

lemma show_nat_digits: "c \<in> set (show_nat n) \<Longrightarrow> is_digit c"
proof (induction n rule: show_nat.induct)
  case (1 n)
  then show ?case
    by (subst (asm) (2) show_nat.simps) (auto simp: digit_char_props split: if_splits)
qed

lemma show_nat_not_Nil: "show_nat n \<noteq> []"
  by (subst show_nat.simps) simp

lemma show_nat_value: "nat_of_digits (show_nat n) = n"
proof (induction n rule: show_nat.induct)
  case (1 n)
  show ?case
  proof (cases "n < 10")
    case True
    then show ?thesis
      by (subst show_nat.simps) (simp add: nat_of_digits_def digit_char_props)
  next
    case False
    with 1 have "nat_of_digits (show_nat (n div 10)) = n div 10" by simp
    with False show ?thesis
      by (subst show_nat.simps) (simp add: nat_of_digits_def digit_char_props)
  qed
qed

lemma show_nat_hd: "hd (show_nat n) = CHR ''0'' \<Longrightarrow> n = 0"
proof (induction n rule: show_nat.induct)
  case (1 n)
  show ?case
  proof (cases "n < 10")
    case True
    with 1(2) show ?thesis
      by (subst (asm) show_nat.simps) (simp add: digit_char_props)
  next
    case False
    with 1(2) have "hd (show_nat (n div 10)) = CHR ''0''"
      by (subst (asm) show_nat.simps) (simp add: show_nat_not_Nil)
    with 1(1) False have "n div 10 = 0" by simp
    with False show ?thesis by simp
  qed
qed

lemma show_nat_0: "show_nat 0 = ''0''"
  by (subst show_nat.simps) (simp add: digit_char_def)

lemma takeWhile_digits:
  assumes "num_end r"
  shows "takeWhile is_digit (show_nat n @ r) = show_nat n"
proof -
  have "takeWhile is_digit r = []"
    using assms by (cases r) (simp_all add: num_end_def)
  then show ?thesis
    by (simp add: show_nat_digits)
qed

lemma int_digits_show_nat:
  assumes "num_end r"
  shows "int_digits (show_nat n @ r) = show_nat n"
proof (cases "show_nat n")
  case Nil
  then show ?thesis using show_nat_not_Nil by simp
next
  case (Cons c cs)
  show ?thesis
  proof (cases "c = CHR ''0''")
    case True
    with Cons have "n = 0" using show_nat_hd [of n] by simp
    then show ?thesis by (simp add: show_nat_0 int_digits_def)
  next
    case False
    have "takeWhile is_digit ((c # cs) @ r) = c # cs"
      using takeWhile_digits [OF assms, of n] Cons by simp
    with False Cons show ?thesis by (simp add: int_digits_def)
  qed
qed

lemma show_nat_hd_not_minus: "hd (show_nat n) \<noteq> CHR ''-''"
proof -
  have "hd (show_nat n) \<in> set (show_nat n)" using show_nat_not_Nil by simp
  then have "is_digit (hd (show_nat n))" by (rule show_nat_digits)
  then show ?thesis by (auto simp: is_digit_def)
qed

lemma num_end_frac: "num_end r \<Longrightarrow> \<not> frac_or_exp r"
  by (cases r) (simp_all add: num_end_def frac_or_exp_def)

lemma parse_number_show_nat:
  assumes "num_end r"
  shows "parse_number (show_nat n @ r) = Some (JNum (int n), r)"
proof -
  obtain c cs where cs: "show_nat n = c # cs"
    using show_nat_not_Nil by (cases "show_nat n") auto
  have c: "c \<noteq> CHR ''-''" using show_nat_hd_not_minus [of n] cs by simp
  have neg: "(case show_nat n @ r of [] \<Rightarrow> False | c # _ \<Rightarrow> c = CHR ''-'') = False"
    using c cs by simp
  show ?thesis
    unfolding parse_number_def neg
    by (simp add: Let_def int_digits_show_nat [OF assms] show_nat_not_Nil
        num_end_frac [OF assms] show_nat_value)
qed

lemma parse_number_show_int:
  assumes "num_end r"
  shows "parse_number (show_int i @ r) = Some (JNum i, r)"
proof (cases "i < 0")
  case False
  then show ?thesis
    using parse_number_show_nat [OF assms, of "nat i"] by (simp add: show_int_def)
next
  case True
  then show ?thesis
    unfolding parse_number_def show_int_def
    by (simp add: Let_def int_digits_show_nat [OF assms] show_nat_not_Nil
        num_end_frac [OF assms] show_nat_value)
qed



lemma hex_digit_cases:
  "d < 16 \<Longrightarrow> d = 0 \<or> d = 1 \<or> d = 2 \<or> d = 3 \<or> d = 4 \<or> d = 5 \<or> d = 6 \<or> d = 7 \<or> d = 8 \<or>
     d = 9 \<or> d = 10 \<or> d = 11 \<or> d = 12 \<or> d = 13 \<or> d = 14 \<or> d = (15::nat)"
  by arith

lemma hex_val_digit_char: "d < 16 \<Longrightarrow> hex_val (digit_char d) = Some d"
  using hex_digit_cases [of d] by (auto simp: digit_char_def hex_val_def)

lemma hex4_control:
  fixes c :: char
  assumes "of_char c < (32::nat)"
  shows "hex4 (CHR ''0'') (CHR ''0'') (digit_char (of_char c div 16)) (digit_char (of_char c mod 16))
         = Some c"
proof -
  let ?n = "of_char c :: nat"
  have a: "hex_val (digit_char (?n div 16)) = Some (?n div 16)"
    using assms by (intro hex_val_digit_char) simp
  have b: "hex_val (digit_char (?n mod 16)) = Some (?n mod 16)"
    by (intro hex_val_digit_char) simp
  have z: "hex_val (CHR ''0'') = Some 0" by (simp add: hex_val_def)
  have "?n div 16 * 16 + ?n mod 16 = ?n" by simp
  then show ?thesis
    unfolding hex4_def using assms by (simp add: a b z)
qed

lemma parse_string_escape:
  "parse_string (escape_char c @ t) = consing c (parse_string t)"
proof -
  consider "c = CHR 0x22" | "c = CHR 0x5C" | "c = CHR 0x08" | "c = CHR 0x0C" | "c = CHR 0x0A"
    | "c = CHR 0x0D" | "c = CHR 0x09"
    | "c \<noteq> CHR 0x22" "c \<noteq> CHR 0x5C" "c \<noteq> CHR 0x08" "c \<noteq> CHR 0x0C" "c \<noteq> CHR 0x0A"
      "c \<noteq> CHR 0x0D" "c \<noteq> CHR 0x09" "of_char c < (32::nat)"
    | "c \<noteq> CHR 0x22" "c \<noteq> CHR 0x5C" "\<not> of_char c < (32::nat)"
    by blast
  then show ?thesis
  proof cases
    case 8
    then show ?thesis
      by (simp add: escape_char_def hex4_control)
  next
    case 9
    then show ?thesis
      by (auto simp add: escape_char_def)
  qed (simp_all add: escape_char_def unescape_def)
qed

lemma parse_string_quote_body:
  "parse_string (concat (map escape_char s) @ CHR 0x22 # r) = Some (s, r)"
  by (induction s) (simp_all add: parse_string_escape consing_def)

lemma parse_string_quote: "parse_string (tl (quote s) @ r) = Some (s, r)"
  using parse_string_quote_body [of s r] by (simp add: quote_def)



lemma skip_ws_Cons: "\<not> is_ws c \<Longrightarrow> skip_ws (c # r) = c # r"
  by (simp add: skip_ws_def)

lemma show_int_start: "\<exists>c t. show_int i = c # t \<and> (c = CHR ''-'' \<or> is_digit c)"
proof -
  obtain c cs where cs: "show_nat (nat \<bar>i\<bar>) = c # cs"
    using show_nat_not_Nil by (cases "show_nat (nat \<bar>i\<bar>)") auto
  then have "is_digit c" using show_nat_digits [of c "nat \<bar>i\<bar>"] by simp
  with cs show ?thesis by (cases "i < 0") (auto simp: show_int_def)
qed

lemma is_digit_start: "c = CHR ''-'' \<or> is_digit c \<Longrightarrow>
  value_start c \<and> c \<noteq> CHR ''['' \<and> c \<noteq> CHR ''{'' \<and> c \<noteq> CHR 0x22 \<and> c \<noteq> CHR ''t''
    \<and> c \<noteq> CHR ''f'' \<and> c \<noteq> CHR ''n''"
  by (auto simp: value_start_def is_ws_def is_digit_def)

lemma stringify_start: "\<exists>c t. JSON_stringify v = c # t \<and> value_start c"
proof (cases v)
  case (JNum i)
  then show ?thesis using show_int_start [of i] is_digit_start by auto
qed (auto simp: value_start_def is_ws_def quote_def)

lemma parse_value_num:
  assumes "num_end r"
  shows "parse_value (show_int i @ r) = Some (JNum i, r)"
proof -
  obtain c t where ct: "show_int i = c # t" "c = CHR ''-'' \<or> is_digit c"
    using show_int_start by blast
  note st = is_digit_start [OF ct(2)]
  have "parse_value (c # t @ r) = parse_number (c # t @ r)"
    using st by (subst parse_value.simps) (simp add: skip_ws_Cons value_start_def)
  then show ?thesis using parse_number_show_int [OF assms, of i] ct by simp
qed

lemma parse_value_str: "parse_value (quote s @ r) = Some (JStr s, r)"
  unfolding quote_def
  by (subst parse_value.simps) (simp add: skip_ws_Cons is_ws_def parse_string_quote_body)

lemma parse_value_lit:
  "parse_value (''null'' @ r) = Some (JNull, r)"
  "parse_value (''true'' @ r) = Some (JBool True, r)"
  "parse_value (''false'' @ r) = Some (JBool False, r)"
  by (subst parse_value.simps, simp add: skip_ws_Cons is_ws_def literal_def)+

lemma num_end_delims [simp]:
  "num_end (CHR '','' # r)" "num_end (CHR '']'' # r)" "num_end (CHR ''}'' # r)" "num_end []"
  by (simp_all add: num_end_def is_digit_def)

lemma skip_ws_delims [simp]:
  "skip_ws (CHR '','' # r) = CHR '','' # r" "skip_ws (CHR '']'' # r) = CHR '']'' # r"
  "skip_ws (CHR ''}'' # r) = CHR ''}'' # r" "skip_ws (CHR '':'' # r) = CHR '':'' # r"
  "skip_ws (CHR 0x22 # r) = CHR 0x22 # r" "skip_ws (CHR ''['' # r) = CHR ''['' # r"
  "skip_ws (CHR ''{'' # r) = CHR ''{'' # r" "skip_ws [] = []"
  by (simp_all add: skip_ws_def is_ws_def)

lemma parse_elems_commas:
  assumes "\<And>x r. x \<in> set xs \<Longrightarrow> num_end r \<Longrightarrow> parse_value (JSON_stringify x @ r) = Some (x, r)"
    and "xs \<noteq> []"
  shows "parse_elems (commas (map JSON_stringify xs) @ CHR '']'' # r) = Some (xs, r)"
  using assms(2,1)
proof (induction xs rule: list_nonempty_induct)
  case (single x)
  then have "parse_value (JSON_stringify x @ CHR '']'' # r) = Some (x, CHR '']'' # r)" by simp
  then show ?case by (subst parse_elems.simps) simp
next
  case (cons x xs)
  obtain y ys where xs: "xs = y # ys" using cons(1) by (cases xs) auto
  let ?rest = "commas (map JSON_stringify xs) @ CHR '']'' # r"
  have v: "parse_value (JSON_stringify x @ CHR '','' # ?rest) = Some (x, CHR '','' # ?rest)"
    using cons(3) by simp
  have ih: "parse_elems ?rest = Some (xs, r)" using cons by simp
  have "commas (map JSON_stringify (x # xs)) @ CHR '']'' # r = JSON_stringify x @ CHR '','' # ?rest"
    by (simp add: xs)
  then show ?case
    by (subst parse_elems.simps) (simp add: v ih consing_def)
qed

lemma parse_members_commas:
  assumes "\<And>k x r. (k, x) \<in> set kvs \<Longrightarrow> num_end r \<Longrightarrow> parse_value (JSON_stringify x @ r) = Some (x, r)"
    and "kvs \<noteq> []"
  shows "parse_members (commas (map member_text kvs) @ CHR ''}'' # r) = Some (kvs, r)"
  using assms(2,1)
proof (induction kvs rule: list_nonempty_induct)
  case (single kv)
  obtain k x where kv: "kv = (k, x)" by (cases kv)
  have v: "parse_value (JSON_stringify x @ CHR ''}'' # r) = Some (x, CHR ''}'' # r)"
    using single [of k x] kv by simp
  show ?case
    unfolding kv member_text_def quote_def
    by (subst parse_members.simps) (simp add: parse_string_quote_body v)
next
  case (cons kv kvs)
  obtain k x where kv: "kv = (k, x)" by (cases kv)
  obtain y ys where kvs: "kvs = y # ys" using cons(1) by (cases kvs) auto
  let ?rest = "commas (map member_text kvs) @ CHR ''}'' # r"
  let ?s = "CHR 0x22 # concat (map escape_char k) @
             CHR 0x22 # CHR '':'' # JSON_stringify x @ CHR '','' # ?rest"
  have v: "parse_value (JSON_stringify x @ CHR '','' # ?rest) = Some (x, CHR '','' # ?rest)"
    using cons(3) [of k x] kv by simp
  have ih: "parse_members ?rest = Some (kvs, r)"
  proof (rule cons(2))
    fix k' x' r' assume "(k', x') \<in> set kvs" "num_end r'"
    then show "parse_value (JSON_stringify x' @ r') = Some (x', r')"
      using cons(3) [of k' x' r'] by simp
  qed
  have "parse_members ?s = Some ((k, x) # kvs, r)"
    by (subst parse_members.simps) (simp add: parse_string_quote_body v ih consing_def)
  moreover have "commas (map member_text (kv # kvs)) @ CHR ''}'' # r = ?s"
    by (simp add: kvs kv member_text_def quote_def)
  ultimately show ?case by (simp add: kv)
qed

lemma foldl_obj_put:
  "distinct (map fst (acc @ kvs)) \<Longrightarrow>
   foldl (\<lambda>acc kv. obj_put acc (fst kv) (snd kv)) acc kvs = acc @ kvs"
proof (induction kvs arbitrary: acc)
  case Nil
  then show ?case by simp
next
  case (Cons kv kvs)
  have put: "obj_put acc (fst kv) (snd kv) = acc @ [kv]" if "fst kv \<notin> fst ` set acc" for acc
    using that by (induction acc) auto
  have "fst kv \<notin> fst ` set acc" using Cons.prems by auto
  then have "obj_put acc (fst kv) (snd kv) = acc @ [kv]" by (rule put)
  moreover have "distinct (map fst ((acc @ [kv]) @ kvs))" using Cons.prems by simp
  ultimately show ?case using Cons.IH [of "acc @ [kv]"] by simp
qed

lemma obj_of_members_distinct: "distinct (map fst kvs) \<Longrightarrow> obj_of_members kvs = JObj kvs"
  using foldl_obj_put [of "[]" kvs] by (simp add: obj_of_members_def)

lemma commas_start:
  "xs \<noteq> [] \<Longrightarrow> \<exists>t. commas xs @ r = hd xs @ t"
  by (cases xs rule: commas.cases) auto

lemma parse_value_stringify:
  "wf_json v \<Longrightarrow> num_end r \<Longrightarrow> parse_value (JSON_stringify v @ r) = Some (v, r)"
proof (induction v arbitrary: r)
  case JNull
  then show ?case using parse_value_lit by simp
next
  case (JBool b)
  then show ?case using parse_value_lit by (cases b) simp_all
next
  case (JNum i)
  then show ?case by (simp add: parse_value_num)
next
  case (JStr s)
  then show ?case by (simp add: parse_value_str)
next
  case (JArr xs)
  show ?case
  proof (cases "xs = []")
    case True
    then show ?thesis by (subst parse_value.simps) simp
  next
    case False
    have el: "parse_elems (commas (map JSON_stringify xs) @ CHR '']'' # r) = Some (xs, r)"
    proof (rule parse_elems_commas [OF _ False])
      fix x r' assume "x \<in> set xs" "num_end r'"
      with JArr show "parse_value (JSON_stringify x @ r') = Some (x, r')"
        by (simp add: list_all_iff)
    qed
    obtain x ys where xs: "xs = x # ys" using False by (cases xs) auto
    obtain c t where ct: "JSON_stringify x = c # t" "value_start c"
      using stringify_start by blast
    obtain t' where t': "commas (map JSON_stringify xs) @ CHR '']'' # r = c # t'"
      using commas_start [of "map JSON_stringify xs" "CHR '']'' # r"] ct xs by auto
    have sk: "skip_ws (c # t') = c # t'" using ct(2) by (simp add: skip_ws_Cons value_start_def)
    have "parse_value (CHR ''['' # c # t') = Some (JArr xs, r)"
      using ct(2) el [unfolded t']
      by (subst parse_value.simps) (simp add: sk value_start_def)
    then show ?thesis using t' by simp
  qed
next
  case (JObj kvs)
  have shape: "JSON_stringify (JObj kvs) = CHR ''{'' # commas (map member_text kvs) @ ''}''"
    by (simp add: member_text_def [abs_def])
  show ?case
  proof (cases "kvs = []")
    case True
    then show ?thesis by (subst parse_value.simps) simp
  next
    case False
    have el: "parse_members (commas (map member_text kvs) @ CHR ''}'' # r) = Some (kvs, r)"
    proof (rule parse_members_commas [OF _ False])
      fix k x r' assume "(k, x) \<in> set kvs" "num_end r'"
      moreover from this JObj.prems have "wf_json x" by (auto simp: list_all_iff)
      ultimately show "parse_value (JSON_stringify x @ r') = Some (x, r')"
        using JObj.IH [of "(k, x)" x r'] by simp
    qed
    obtain kv ys where kvs: "kvs = kv # ys" using False by (cases kvs) auto
    obtain t' where t': "commas (map member_text kvs) @ CHR ''}'' # r = CHR 0x22 # t'"
      using commas_start [of "map member_text kvs" "CHR ''}'' # r"] kvs
      by (auto simp: member_text_def quote_def)
    have d: "obj_of_members kvs = JObj kvs"
      using JObj.prems by (simp add: obj_of_members_distinct)
    have "parse_value (CHR ''{'' # CHR 0x22 # t') = Some (JObj kvs, r)"
      using el [unfolded t'] by (subst parse_value.simps) (simp add: d)
    then show ?thesis using t' shape by simp
  qed
qed

lemma JSON_parse_stringify: "wf_json v \<Longrightarrow> JSON_parse (JSON_stringify v) = Some v"
  using parse_value_stringify [of v "[]"] by (simp add: JSON_parse_def)


subsection \<open>Parsed values are well formed\<close>


lemma obj_put_keys:
  "map fst (obj_put acc k v) = (if k \<in> fst ` set acc then map fst acc else map fst acc @ [k])"
  by (induction acc) auto

lemma obj_put_vals: "set (obj_put acc k v) \<subseteq> insert (k, v) (set acc)"
  by (induction acc) auto

lemma foldl_obj_put_wf:
  "distinct (map fst acc) \<Longrightarrow> list_all (\<lambda>kv. wf_json (snd kv)) acc \<Longrightarrow>
   list_all (\<lambda>kv. wf_json (snd kv)) kvs \<Longrightarrow>
   distinct (map fst (foldl (\<lambda>acc kv. obj_put acc (fst kv) (snd kv)) acc kvs)) \<and>
   list_all (\<lambda>kv. wf_json (snd kv)) (foldl (\<lambda>acc kv. obj_put acc (fst kv) (snd kv)) acc kvs)"
proof (induction kvs arbitrary: acc)
  case Nil
  then show ?case by simp
next
  case (Cons kv kvs)
  let ?acc = "obj_put acc (fst kv) (snd kv)"
  have d: "distinct (map fst ?acc)" using Cons.prems(1) by (simp add: obj_put_keys)
  have "set ?acc \<subseteq> insert (fst kv, snd kv) (set acc)" by (rule obj_put_vals)
  then have w: "list_all (\<lambda>kv. wf_json (snd kv)) ?acc"
    using Cons.prems(2,3) by (auto simp: list_all_iff)
  from Cons.IH [OF d w] Cons.prems(3) show ?case by simp
qed

lemma obj_of_members_wf:
  "list_all (\<lambda>kv. wf_json (snd kv)) kvs \<Longrightarrow> wf_json (obj_of_members kvs)"
  using foldl_obj_put_wf [of "[]" kvs] by (simp add: obj_of_members_def)

lemma parse_number_wf: "parse_number s = Some (v, r) \<Longrightarrow> wf_json v"
  by (auto simp: parse_number_def Let_def split: if_splits)

lemma literal_wf: "literal w x s = Some (v, r) \<Longrightarrow> wf_json x \<Longrightarrow> wf_json v"
  by (auto simp: literal_def split: if_splits)

lemma length_skip_ws: "skip_ws s = c # t \<Longrightarrow> length t < length s"
proof -
  assume a: "skip_ws s = c # t"
  have "length (skip_ws s) \<le> length s" by (simp add: skip_ws_def length_dropWhile_le)
  with a show ?thesis by simp
qed

lemma parse_wf_all:
  "(\<forall>v r. parse_value s = Some (v, r) \<longrightarrow> wf_json v) \<and>
   (\<forall>xs r. parse_elems s = Some (xs, r) \<longrightarrow> list_all wf_json xs) \<and>
   (\<forall>kvs r. parse_members s = Some (kvs, r) \<longrightarrow> list_all (\<lambda>kv. wf_json (snd kv)) kvs)"
proof (induction "length s" arbitrary: s rule: less_induct)
  case less
  have P: "wf_json v" if pv: "parse_value s = Some (v, r)" for v r
  proof -
    obtain c t where sk: "skip_ws s = c # t"
      using pv by (subst (asm) parse_value.simps) (auto split: list.splits)
    have lt: "length t < length s" using sk by (rule length_skip_ws)
    consider (arr) "c = CHR ''[''" | (obj) "c \<noteq> CHR ''[''" "c = CHR ''{''"
      | (other) "c \<noteq> CHR ''[''" "c \<noteq> CHR ''{''" by blast
    then show ?thesis
    proof cases
      case arr
      with pv sk obtain c' t' where sk': "skip_ws t = c' # t'"
        by (subst (asm) parse_value.simps) (auto split: list.splits)
      show ?thesis
      proof (cases "c' = CHR '']''")
        case True
        with pv sk sk' arr show ?thesis
          by (subst (asm) parse_value.simps) auto
      next
        case False
        with pv sk sk' arr obtain xs where "parse_elems t = Some (xs, r)" "v = JArr xs"
          by (subst (asm) parse_value.simps) auto
        with less [OF lt] show ?thesis by auto
      qed
    next
      case obj
      with pv sk obtain c' t' where sk': "skip_ws t = c' # t'"
        by (subst (asm) parse_value.simps) (auto split: list.splits)
      show ?thesis
      proof (cases "c' = CHR ''}''")
        case True
        with pv sk sk' obj show ?thesis
          by (subst (asm) parse_value.simps) auto
      next
        case False
        with pv sk sk' obj obtain kvs where
          "parse_members t = Some (kvs, r)" "v = obj_of_members kvs"
          by (subst (asm) parse_value.simps) auto
        with less [OF lt] show ?thesis by (auto intro: obj_of_members_wf)
      qed
    next
      case other
      with pv sk show ?thesis
        by (subst (asm) parse_value.simps)
           (auto split: if_splits dest: literal_wf parse_number_wf)
    qed
  qed
  have Q: "list_all wf_json xs" if pe: "parse_elems s = Some (xs, r)" for xs r
  proof -
    from pe obtain v r0 where pv: "parse_value s = Some (v, r0)"
      by (subst (asm) parse_elems.simps) (auto split: option.splits)
    then have wv: "wf_json v" by (rule P)
    from pe pv obtain c t where sk: "skip_ws r0 = c # t"
      by (subst (asm) parse_elems.simps) (auto split: list.splits)
    show ?thesis
    proof (cases "c = CHR '',''")
      case True
      with pe pv sk obtain ys where lt: "length t < length s"
        and "parse_elems t = Some (ys, r)" "xs = v # ys"
        by (subst (asm) parse_elems.simps) (auto simp: consing_def split: if_splits)
      with less [OF lt] wv show ?thesis by auto
    next
      case False
      with pe pv sk wv show ?thesis
        by (subst (asm) parse_elems.simps) (auto split: if_splits)
    qed
  qed
  have R: "list_all (\<lambda>kv. wf_json (snd kv)) kvs" if pm: "parse_members s = Some (kvs, r)" for kvs r
  proof -
    from pm obtain q t where sk: "skip_ws s = q # t" and q: "q = CHR 0x22"
      by (subst (asm) parse_members.simps) (auto split: list.splits if_splits)
    from pm sk q obtain k r1 where ps: "parse_string t = Some (k, r1)"
      by (subst (asm) parse_members.simps) (auto split: option.splits)
    from pm sk q ps obtain c r2 where sk1: "skip_ws r1 = c # r2"
      and c: "c = CHR '':''" and lt: "length r2 < length s"
      by (subst (asm) parse_members.simps) (auto split: list.splits if_splits)
    from pm sk q ps sk1 c lt obtain v r3 where pv: "parse_value r2 = Some (v, r3)"
      by (subst (asm) parse_members.simps) (auto split: option.splits)
    have wv: "wf_json v" using less [OF lt] pv by blast
    from pm sk q ps sk1 c lt pv obtain c' r4 where sk3: "skip_ws r3 = c' # r4"
      by (subst (asm) parse_members.simps) (auto split: list.splits)
    show ?thesis
    proof (cases "c' = CHR '',''")
      case True
      with pm sk q ps sk1 c lt pv sk3 obtain ys where lt4: "length r4 < length s"
        and "parse_members r4 = Some (ys, r)" "kvs = (k, v) # ys"
        by (subst (asm) parse_members.simps) (auto simp: consing_def split: if_splits)
      with less [OF lt4] wv show ?thesis by auto
    next
      case False
      with pm sk q ps sk1 c lt pv sk3 wv show ?thesis
        by (subst (asm) parse_members.simps) (auto split: if_splits)
    qed
  qed
  from P Q R show ?case by blast
qed

lemma JSON_parse_wf: "JSON_parse s = Some v \<Longrightarrow> wf_json v"
  by (auto simp: JSON_parse_def split: option.splits if_splits dest: parse_wf_all [THEN conjunct1, rule_format])


subsection \<open>The rest of a parse is shorter than its input\<close>

lemma parse_string_shorter: "parse_string s = Some (t, r) \<Longrightarrow> length r < length s"
proof (induction "length s" arbitrary: s t r rule: less_induct)
  case less
  from less.prems obtain c s' where s: "s = c # s'" by (cases s) auto
  have "r = s' \<or> (\<exists>s'' t'. parse_string s'' = Some (t', r) \<and> length s'' < length s)"
    using less.prems unfolding s
    by (fastforce simp: consing_def split: if_splits list.splits option.splits)
  then show ?case
  proof
    assume "r = s'"
    with s show ?thesis by simp
  next
    assume "\<exists>s'' t'. parse_string s'' = Some (t', r) \<and> length s'' < length s"
    then obtain s'' t' where "parse_string s'' = Some (t', r)" "length s'' < length s" by blast
    with less.hyps [of s'' t' r] show ?thesis by simp
  qed
qed

lemma int_digits_Nil: "int_digits s \<noteq> [] \<Longrightarrow> s \<noteq> []"
  by (auto simp: int_digits_def)

lemma parse_number_shorter: "parse_number s = Some (v, r) \<Longrightarrow> length r < length s"
proof -
  assume a: "parse_number s = Some (v, r)"
  define s1 where "s1 = (if (case s of [] \<Rightarrow> False | c # _ \<Rightarrow> c = CHR ''-'') then tl s else s)"
  from a have ds: "int_digits s1 \<noteq> []" and r: "r = drop (length (int_digits s1)) s1"
    by (auto simp: parse_number_def Let_def s1_def split: if_splits)
  from ds have "s1 \<noteq> []" by (rule int_digits_Nil)
  with ds r have "length r < length s1" by simp
  moreover have "length s1 \<le> length s" by (simp add: s1_def)
  ultimately show ?thesis by simp
qed

lemma literal_shorter: "literal w x s = Some (v, r) \<Longrightarrow> w \<noteq> [] \<Longrightarrow> length r < length s"
  by (cases s) (auto simp: literal_def split: if_splits)

lemma skip_ws_le: "length (skip_ws s) \<le> length s"
  by (simp add: skip_ws_def length_dropWhile_le)

lemma parse_rest_shorter:
  "(\<forall>v r. parse_value s = Some (v, r) \<longrightarrow> length r < length s) \<and>
   (\<forall>xs r. parse_elems s = Some (xs, r) \<longrightarrow> length r < length s) \<and>
   (\<forall>kvs r. parse_members s = Some (kvs, r) \<longrightarrow> length r < length s)"
proof (induction "length s" arbitrary: s rule: less_induct)
  case less
  have P: "length r < length s" if pv: "parse_value s = Some (v, r)" for v r
  proof -
    obtain c t where sk: "skip_ws s = c # t"
      using pv by (subst (asm) parse_value.simps) (auto split: list.splits)
    have lt: "length t < length s" using sk by (rule length_skip_ws)
    have le: "length (c # t) \<le> length s" using skip_ws_le [of s] sk by simp
    consider (arr) "c = CHR ''[''" | (obj) "c \<noteq> CHR ''[''" "c = CHR ''{''"
      | (str) "c \<noteq> CHR ''[''" "c \<noteq> CHR ''{''" "c = CHR 0x22"
      | (other) "c \<noteq> CHR ''[''" "c \<noteq> CHR ''{''" "c \<noteq> CHR 0x22" by blast
    then show ?thesis
    proof cases
      case arr
      with pv sk obtain c' t' where sk': "skip_ws t = c' # t'"
        by (subst (asm) parse_value.simps) (auto split: list.splits)
      show ?thesis
      proof (cases "c' = CHR '']''")
        case True
        with pv sk sk' arr have "r = t'"
          by (subst (asm) parse_value.simps) auto
        with skip_ws_le [of t] sk' lt show ?thesis by simp
      next
        case False
        with pv sk sk' arr obtain xs where "parse_elems t = Some (xs, r)"
          by (subst (asm) parse_value.simps) auto
        with less [OF lt] lt show ?thesis by force
      qed
    next
      case obj
      with pv sk obtain c' t' where sk': "skip_ws t = c' # t'"
        by (subst (asm) parse_value.simps) (auto split: list.splits)
      show ?thesis
      proof (cases "c' = CHR ''}''")
        case True
        with pv sk sk' obj have "r = t'"
          by (subst (asm) parse_value.simps) auto
        with skip_ws_le [of t] sk' lt show ?thesis by simp
      next
        case False
        with pv sk sk' obj obtain kvs where "parse_members t = Some (kvs, r)"
          by (subst (asm) parse_value.simps) auto
        with less [OF lt] lt show ?thesis by force
      qed
    next
      case str
      with pv sk obtain x where "parse_string t = Some (x, r)"
        by (subst (asm) parse_value.simps) auto
      from parse_string_shorter [OF this] lt show ?thesis by simp
    next
      case other
      with pv sk have "literal ''true'' (JBool True) (c # t) = Some (v, r) \<or>
          literal ''false'' (JBool False) (c # t) = Some (v, r) \<or>
          literal ''null'' JNull (c # t) = Some (v, r) \<or>
          parse_number (c # t) = Some (v, r)"
        by (subst (asm) parse_value.simps) (auto split: if_splits)
      then have "length r < length (c # t)"
        using literal_shorter parse_number_shorter by (elim disjE) fastforce+
      with le show ?thesis by simp
    qed
  qed
  have Q: "length r < length s" if pe: "parse_elems s = Some (xs, r)" for xs r
  proof -
    from pe obtain v r0 where pv: "parse_value s = Some (v, r0)"
      by (subst (asm) parse_elems.simps) (auto split: option.splits)
    then have r0: "length r0 < length s" by (rule P)
    from pe pv obtain c t where sk: "skip_ws r0 = c # t"
      by (subst (asm) parse_elems.simps) (auto split: list.splits)
    have t: "length t < length r0" using sk by (rule length_skip_ws)
    show ?thesis
    proof (cases "c = CHR '',''")
      case True
      with pe pv sk obtain ys where lt: "length t < length s"
        and "parse_elems t = Some (ys, r)"
        by (subst (asm) parse_elems.simps) (auto simp: consing_def split: if_splits)
      with less [OF lt] show ?thesis by force
    next
      case False
      with pe pv sk have "r = t"
        by (subst (asm) parse_elems.simps) (auto split: if_splits)
      with t r0 show ?thesis by simp
    qed
  qed
  have R: "length r < length s" if pm: "parse_members s = Some (kvs, r)" for kvs r
  proof -
    from pm obtain q t where sk: "skip_ws s = q # t" and q: "q = CHR 0x22"
      by (subst (asm) parse_members.simps) (auto split: list.splits if_splits)
    from pm sk q obtain k r1 where ps: "parse_string t = Some (k, r1)"
      by (subst (asm) parse_members.simps) (auto split: option.splits)
    from pm sk q ps obtain c r2 where sk1: "skip_ws r1 = c # r2"
      and c: "c = CHR '':''" and lt: "length r2 < length s"
      by (subst (asm) parse_members.simps) (auto split: list.splits if_splits)
    from pm sk q ps sk1 c lt obtain v r3 where pv: "parse_value r2 = Some (v, r3)"
      by (subst (asm) parse_members.simps) (auto split: option.splits)
    have r3: "length r3 < length r2" using less [OF lt] pv by blast
    from pm sk q ps sk1 c lt pv obtain c' r4 where sk3: "skip_ws r3 = c' # r4"
      by (subst (asm) parse_members.simps) (auto split: list.splits)
    have r4: "length r4 < length r3" using sk3 by (rule length_skip_ws)
    show ?thesis
    proof (cases "c' = CHR '',''")
      case True
      with pm sk q ps sk1 c lt pv sk3 obtain ys where lt4: "length r4 < length s"
        and "parse_members r4 = Some (ys, r)"
        by (subst (asm) parse_members.simps) (auto simp: consing_def split: if_splits)
      with less [OF lt4] show ?thesis by force
    next
      case False
      with pm sk q ps sk1 c lt pv sk3 have "r = r4"
        by (subst (asm) parse_members.simps) (auto split: if_splits)
      with r4 r3 lt show ?thesis by simp
    qed
  qed
  from P Q R show ?case by blast
qed

text \<open>Hence the equations of the parser without the tests on lengths.\<close>

lemma parse_elems_unguarded:
  "parse_elems s =
     (case parse_value s of
        None \<Rightarrow> None
      | Some (v, r) \<Rightarrow>
          (case skip_ws r of
             [] \<Rightarrow> None
           | c # r' \<Rightarrow>
               if c = CHR '','' then consing v (parse_elems r')
               else if c = CHR '']'' then Some ([v], r')
               else None))"
proof (cases "parse_value s")
  case None
  then show ?thesis by (subst parse_elems.simps) simp
next
  case (Some p)
  obtain v r where p: "p = (v, r)" by (cases p)
  have r: "length r < length s" using parse_rest_shorter Some p by blast
  show ?thesis
  proof (cases "skip_ws r")
    case Nil
    with Some p show ?thesis by (subst parse_elems.simps) simp
  next
    case (Cons c r')
    then have "length r' < length r" by (rule length_skip_ws)
    with r have "length r' < length s" by simp
    with Some p Cons show ?thesis by (subst parse_elems.simps) simp
  qed
qed

lemma parse_members_unguarded:
  "parse_members s =
     (case skip_ws s of
        [] \<Rightarrow> None
      | q # r \<Rightarrow>
          if q \<noteq> CHR 0x22 then None
          else
            (case parse_string r of
               None \<Rightarrow> None
             | Some (k, r1) \<Rightarrow>
                 (case skip_ws r1 of
                    [] \<Rightarrow> None
                  | c # r2 \<Rightarrow>
                      if c \<noteq> CHR '':'' then None
                      else
                        (case parse_value r2 of
                           None \<Rightarrow> None
                         | Some (v, r3) \<Rightarrow>
                             (case skip_ws r3 of
                                [] \<Rightarrow> None
                              | c' # r4 \<Rightarrow>
                                  if c' = CHR '','' then consing (k, v) (parse_members r4)
                                  else if c' = CHR ''}'' then Some ([(k, v)], r4)
                                  else None)))))"
proof -
  have g2: "length r2 < length s"
    if "skip_ws s = q # r" "parse_string r = Some (k, r1)" "skip_ws r1 = c # r2" for q r k r1 c r2
    using length_skip_ws [OF that(1)] parse_string_shorter [OF that(2)] length_skip_ws [OF that(3)]
    by simp
  have g4: "length r4 < length s"
    if "skip_ws s = q # r" "parse_string r = Some (k, r1)" "skip_ws r1 = c # r2"
      "parse_value r2 = Some (v, r3)" "skip_ws r3 = c' # r4" for q r k r1 c r2 v r3 c' r4
  proof -
    have "length r3 < length r2" using parse_rest_shorter that(4) by blast
    with g2 [OF that(1,2,3)] length_skip_ws [OF that(5)] show ?thesis by simp
  qed
  show ?thesis
    by (subst parse_members.simps)
       (auto split: list.splits option.splits simp: g2 g4)
qed

section \<open>Bytes and storage\<close>

lemma toUtf8String_utf8_char:
  "toUtf8String (utf8_char c @ t) = map_option (Cons c) (toUtf8String t)"
proof (cases "(of_char c :: nat) < 128")
  case True
  then show ?thesis by (simp add: utf8_char_def)
next
  case False
  define n where "n = (of_char c :: nat)"
  define a where "a = 192 + n div 64"
  define b where "b = 128 + n mod 64"
  have lt: "n < 256" by (simp add: n_def)
  have ge: "128 \<le> n" using False by (simp add: n_def)
  have a: "a = 194 \<or> a = 195" using lt ge unfolding a_def by arith
  have b: "128 \<le> b" "b < 192" unfolding b_def by simp_all
  have oa: "(of_char (char_of a :: char) :: nat) = a" using a by auto
  have ob: "(of_char (char_of b :: char) :: nat) = b" using b by simp
  have "(a - 192) * 64 + (b - 128) = n" unfolding a_def b_def by simp
  then have c: "char_of ((a - 192) * 64 + (b - 128)) = c" by (simp add: n_def)
  have u: "utf8_char c = [char_of a, char_of b]"
    using False by (simp add: utf8_char_def a_def b_def n_def Let_def)
  have "toUtf8String (char_of a # char_of b # t) = map_option (Cons c) (toUtf8String t)"
    using a b c by (simp only: toUtf8String.simps Let_def oa ob list.case) auto
  then show ?thesis by (simp add: u)
qed

lemma utf8_roundtrip: "toUtf8String (toUtf8Bytes s) = Some s"
  unfolding toUtf8Bytes_def
  by (induction s) (simp_all add: toUtf8String_utf8_char)



lemma utf8_char_not_Nil: "utf8_char c \<noteq> []"
  by (simp add: utf8_char_def Let_def)

lemma to_bytes_not_Nil: "to_bytes v \<noteq> []"
proof -
  obtain c t where "JSON_stringify v = c # t" using stringify_start by blast
  then show ?thesis by (simp add: to_bytes_def toUtf8Bytes_def utf8_char_not_Nil)
qed

lemma parse_bytes_to_bytes: "wf_json v \<Longrightarrow> parse_bytes (to_bytes v) = Inr v"
  by (simp add: parse_bytes_def to_bytes_def utf8_roundtrip JSON_parse_stringify)

lemma parse_bytes_wf: "parse_bytes b = Inr v \<Longrightarrow> wf_json v"
  by (auto simp: parse_bytes_def split: option.splits dest: JSON_parse_wf)

lemma parse_bytes_Nil: "parse_bytes [] = Inl SyntaxError"
  by (simp add: parse_bytes_def JSON_parse_def) (subst parse_value.simps, simp)

lemma read_keys_wf: "wf_json (read_keys st)"
  by (auto simp: read_keys_def Let_def split: sum.splits dest: parse_bytes_wf)

lemma read_keys_other:
  "k \<noteq> ''training_keys'' \<Longrightarrow> read_keys (st(k := v)) = read_keys st"
  by (simp add: read_keys_def getData_def)

lemma read_keys_written:
  "wf_json v \<Longrightarrow> read_keys (st(''training_keys'' := to_bytes v)) = v"
  by (simp add: read_keys_def getData_def to_bytes_not_Nil parse_bytes_to_bytes)

lemma read_keys_cases:
  "read_keys st =
     (if st ''training_keys'' = [] then JArr []
      else case parse_bytes (st ''training_keys'') of Inl e \<Rightarrow> JArr [] | Inr v \<Rightarrow> v)"
  by (simp add: read_keys_def getData_def)

lemma record_key_not_index: "record_key (make_recordId now rnd) \<noteq> ''training_keys''"
proof -
  obtain c t where ct: "show_int now = c # t" "c = CHR ''-'' \<or> is_digit c"
    using show_int_start by blast
  then have "c \<noteq> CHR ''k''" by (auto simp: is_digit_def)
  with ct show ?thesis by (simp add: record_key_def make_recordId_def)
qed

lemma submitRecord_Done:
  assumes "submitRecord env form now_id rnd now_ts st = (Done, st')"
  shows "\<exists>xs. read_keys st = JArr xs \<and>
           st' = (st(record_key (make_recordId now_id rnd) :=
                       to_bytes (build_recordData env form now_ts)))
                 (''training_keys'' := to_bytes (JArr (xs @ [JStr (make_recordId now_id rnd)])))"
  using assms
  by (auto simp: submitRecord_def Let_def setData_def keys_push_def read_keys_other
      record_key_not_index split: if_splits option.splits json.splits)

lemma submitRecord_succeeds:
  assumes "provider env" "signer_contract env" "\<And>k v. tx_accepted env k v"
    and "read_keys st = JArr xs"
  shows "fst (submitRecord env form now_id rnd now_ts st) = Done"
  using assms
  by (simp add: submitRecord_def Let_def setData_def keys_push_def read_keys_other
      record_key_not_index)


section \<open>Submissions, status changes and the sorted list\<close>

lemma index_ids_Done:
  assumes "submitRecord env form now_id rnd now_ts st = (Done, st')"
  shows "index_ids st' = index_ids st @ [JStr (make_recordId now_id rnd)]"
proof -
  from submitRecord_Done [OF assms] obtain xs where
    xs: "read_keys st = JArr xs" and
    st': "st' = (st(record_key (make_recordId now_id rnd) :=
                       to_bytes (build_recordData env form now_ts)))
                 (''training_keys'' := to_bytes (JArr (xs @ [JStr (make_recordId now_id rnd)])))"
    by blast
  have "wf_json (JArr xs)" using read_keys_wf [of st] xs by simp
  then have "wf_json (JArr (xs @ [JStr (make_recordId now_id rnd)]))" by simp
  then have "read_keys st' = JArr (xs @ [JStr (make_recordId now_id rnd)])"
    unfolding st' by (rule read_keys_written)
  with xs show ?thesis by (simp add: index_ids_def)
qed

lemma read_keys_empty: "read_keys (\<lambda>_. []) = JArr []"
  by (simp add: read_keys_def getData_def)

lemma index_ids_submit_all:
  "submit_all env subs st = Some st' \<Longrightarrow> index_ids st' = index_ids st @ map sub_id subs"
proof (induction subs arbitrary: st)
  case Nil
  then show ?case by simp
next
  case (Cons s subs)
  obtain form now_id rnd now_ts where s: "s = (form, now_id, rnd, now_ts)"
    by (cases s) auto
  from Cons.prems s obtain st1 where
    one: "submitRecord env form now_id rnd now_ts st = (Done, st1)"
    and rest: "submit_all env subs st1 = Some st'"
    by (auto split: prod.splits outcome.splits)
  from Cons.IH [OF rest] index_ids_Done [OF one] s show ?case by simp
qed

lemma submitted_score_nonzero: "submitted_score form \<noteq> 0"
  by (simp add: submitted_score_def split: option.splits)

lemma derive_plan_not_Nil: "derive_plan score \<noteq> []"
  by (simp add: derive_plan_def)

lemma wf_build_recordData: "wf_json (build_recordData env form now)"
  by (simp add: build_recordData_def Let_def)

lemma build_recordData_not_null: "build_recordData env form now \<noteq> JNull"
  by (simp add: build_recordData_def Let_def)

lemma decode_build_recordData:
  "decode_record key (build_recordData env form now) =
     \<lparr> id' = key,
       encryptedData = Some (JStr (encrypt_form form)),
       timestamp = Some (JNum (now div 1000)),
       owner = Some (JStr (account env)),
       category = Some (JStr (form_category form)),
       cognitiveScore = JNum (submitted_score form),
       trainingPlan = JStr (derive_plan (submitted_score form)),
       status = JStr ''pending'' \<rparr>"
  by (simp add: decode_record_def build_recordData_def Let_def get_field_def or_else_def
      truthy_def submitted_score_nonzero derive_plan_not_Nil)

lemma load_submitted:
  assumes "submitRecord env form now_id rnd now_ts st = (Done, st')"
  shows "load_record st' (JStr (make_recordId now_id rnd)) =
           Some (decode_record (JStr (make_recordId now_id rnd)) (build_recordData env form now_ts))"
proof -
  from submitRecord_Done [OF assms] obtain xs where
    st': "st' = (st(record_key (make_recordId now_id rnd) :=
                       to_bytes (build_recordData env form now_ts)))
                 (''training_keys'' := to_bytes (JArr (xs @ [JStr (make_recordId now_id rnd)])))"
    by blast
  have "getData st' (record_key (make_recordId now_id rnd)) =
          to_bytes (build_recordData env form now_ts)"
    unfolding st' using record_key_not_index [of now_id rnd] by (simp add: getData_def)
  then show ?thesis
    by (simp add: load_record_def to_bytes_not_Nil parse_bytes_to_bytes wf_build_recordData
        build_recordData_not_null)
qed

lemma parseInt_examples:
  "parseInt '''' = None" "parseInt ''abc'' = None" "parseInt ''0'' = Some 0"
  "parseInt ''150'' = Some 150" "parseInt ''-5'' = Some (- 5)"
  by (simp_all add: parseInt_def is_js_space_def radix_digit_def Let_def)

lemma map_of_obj_put:
  "map_of (obj_put kvs k v) f = (if f = k then Some v else map_of kvs f)"
  by (induction kvs) auto

lemma show_nat_inj: "show_nat m = show_nat n \<Longrightarrow> m = n"
  by (metis show_nat_value)

lemma distinct_show_nat: "distinct (map show_nat [0..<n])"
  by (simp add: distinct_map inj_on_def show_nat_inj)

lemma spread_wf:
  assumes "wf_json v"
  shows "distinct (map fst (spread v))" and "list_all (\<lambda>kv. wf_json (snd kv)) (spread v)"
proof -
  show "distinct (map fst (spread v))"
    using assms by (cases v) (simp_all add: spread_def distinct_show_nat)
  show "list_all (\<lambda>kv. wf_json (snd kv)) (spread v)"
  proof (cases v)
    case (JArr xs)
    have "snd ` set (zip (map show_nat [0..<length xs]) xs) \<subseteq> set xs"
      by (auto dest: set_zip_rightD)
    with assms JArr show ?thesis by (auto simp: spread_def list_all_iff)
  next
    case (JStr s)
    have "snd ` set (zip (map show_nat [0..<length s]) (map (\<lambda>c. JStr [c]) s))
            \<subseteq> set (map (\<lambda>c. JStr [c]) s)"
      by (auto dest: set_zip_rightD)
    then show ?thesis using JStr by (auto simp: spread_def list_all_iff)
  qed (use assms in \<open>simp_all add: spread_def\<close>)
qed

lemma wf_updated:
  assumes "wf_json v"
  shows "wf_json (JObj (obj_put (spread v) ''status'' (JStr s)))"
proof -
  have d: "distinct (map fst (obj_put (spread v) ''status'' (JStr s)))"
    using spread_wf(1) [OF assms] by (simp add: obj_put_keys)
  have "set (obj_put (spread v) ''status'' (JStr s)) \<subseteq> insert (''status'', JStr s) (set (spread v))"
    by (rule obj_put_vals)
  then have "list_all (\<lambda>kv. wf_json (snd kv)) (obj_put (spread v) ''status'' (JStr s))"
    using spread_wf(2) [OF assms] by (auto simp: list_all_iff)
  with d show ?thesis by simp
qed

text \<open>A name with a character that is not a digit is not an index.\<close>

lemma not_index_key:
  assumes "\<exists>c \<in> set f. \<not> is_digit c"
  shows "f \<notin> set (map show_nat ns)"
  using assms show_nat_digits by auto

lemma named_field_digits:
  "f \<in> {''data'', ''timestamp'', ''owner'', ''category'', ''cognitiveScore'', ''trainingPlan'', ''status''}
   \<Longrightarrow> \<exists>c \<in> set f. \<not> is_digit c"
  by (auto simp: is_digit_def)

lemma map_of_spread:
  assumes "f \<in> {''data'', ''timestamp'', ''owner'', ''category'', ''cognitiveScore'',
                ''trainingPlan'', ''status''}"
  shows "map_of (spread v) f = get_field v f"
proof (cases v)
  case (JArr xs)
  have "f \<notin> set (map show_nat [0..<length xs])"
    using not_index_key [OF named_field_digits [OF assms]] .
  then have "f \<notin> fst ` set (zip (map show_nat [0..<length xs]) xs)"
    by (auto dest: set_zip_leftD)
  then show ?thesis using JArr by (simp add: spread_def get_field_def map_of_eq_None_iff)
next
  case (JStr s)
  have "f \<notin> set (map show_nat [0..<length s])"
    using not_index_key [OF named_field_digits [OF assms]] .
  then have "f \<notin> fst ` set (zip (map show_nat [0..<length s]) (map (\<lambda>c. JStr [c]) s))"
    by (auto dest: set_zip_leftD)
  then show ?thesis using JStr by (simp add: spread_def get_field_def map_of_eq_None_iff)
qed (simp_all add: spread_def get_field_def)

lemma set_status_Done:
  assumes "set_status s env recordId st = (Done, st')"
  shows "\<exists>old. parse_bytes (getData st (record_key recordId)) = Inr old \<and>
           st' = st(record_key recordId :=
                      to_bytes (JObj (obj_put (spread old) ''status'' (JStr s))))"
  using assms
  by (auto simp: set_status_def Let_def setData_def getData_def
      split: if_splits sum.splits)

lemma get_field_updated:
  assumes "f \<in> {''data'', ''timestamp'', ''owner'', ''category'', ''cognitiveScore'', ''trainingPlan''}"
  shows "get_field (JObj (obj_put (spread v) ''status'' x)) f = get_field v f"
proof -
  from assms have "f \<noteq> ''status''" by auto
  moreover from assms have "map_of (spread v) f = get_field v f"
    by (intro map_of_spread) auto
  ultimately show ?thesis by (simp add: get_field_def map_of_obj_put)
qed

lemma get_field_updated_status:
  "get_field (JObj (obj_put (spread v) ''status'' x)) ''status'' = Some x"
  by (simp add: get_field_def map_of_obj_put)

lemma decode_updated:
  assumes "s \<noteq> []"
  shows "decode_record key (JObj (obj_put (spread v) ''status'' (JStr s))) =
           (decode_record key v)\<lparr>status := JStr s\<rparr>"
proof -
  let ?new = "JObj (obj_put (spread v) ''status'' (JStr s))"
  have f: "get_field ?new ''data'' = get_field v ''data''"
      "get_field ?new ''timestamp'' = get_field v ''timestamp''"
      "get_field ?new ''owner'' = get_field v ''owner''"
      "get_field ?new ''category'' = get_field v ''category''"
      "get_field ?new ''cognitiveScore'' = get_field v ''cognitiveScore''"
      "get_field ?new ''trainingPlan'' = get_field v ''trainingPlan''"
    by (rule get_field_updated, simp)+
  have t: "or_else (Some (JStr s)) (JStr ''pending'') = JStr s"
    using assms by (simp add: or_else_def truthy_def)
  show ?thesis
    unfolding decode_record_def f get_field_updated_status t by simp
qed

lemma set_status_frame:
  assumes "set_status s env recordId st = (Done, st')"
  shows "(\<forall>k. k \<noteq> record_key recordId \<longrightarrow> getData st' k = getData st k) \<and>
         (\<exists>old new.
            parse_bytes (getData st (record_key recordId)) = Inr old \<and>
            parse_bytes (getData st' (record_key recordId)) = Inr new \<and>
            get_field new ''status'' = Some (JStr s) \<and>
            (\<forall>f \<in> {''data'', ''timestamp'', ''owner'', ''category'', ''cognitiveScore'',
                    ''trainingPlan''}. get_field new f = get_field old f) \<and>
            (s \<noteq> [] \<longrightarrow> (\<forall>key. decode_record key new = (decode_record key old)\<lparr>status := JStr s\<rparr>)))"
proof -
  from set_status_Done [OF assms] obtain old where
    old: "parse_bytes (getData st (record_key recordId)) = Inr old" and
    st': "st' = st(record_key recordId :=
                      to_bytes (JObj (obj_put (spread old) ''status'' (JStr s))))"
    by blast
  let ?new = "JObj (obj_put (spread old) ''status'' (JStr s))"
  have wf: "wf_json ?new" using parse_bytes_wf [OF old] by (rule wf_updated)
  have new: "parse_bytes (getData st' (record_key recordId)) = Inr ?new"
    unfolding st' by (simp add: getData_def parse_bytes_to_bytes [OF wf])
  have frame: "\<forall>k. k \<noteq> record_key recordId \<longrightarrow> getData st' k = getData st k"
    unfolding st' by (simp add: getData_def)
  have named: "\<forall>f \<in> {''data'', ''timestamp'', ''owner'', ''category'', ''cognitiveScore'',
                    ''trainingPlan''}. get_field ?new f = get_field old f"
    using get_field_updated by blast
  have dec: "s \<noteq> [] \<longrightarrow> (\<forall>key. decode_record key ?new = (decode_record key old)\<lparr>status := JStr s\<rparr>)"
    using decode_updated by blast
  from old new frame get_field_updated_status named dec show ?thesis by blast
qed










lemma open_session_simps [simp]:
  "provider (open_session a)" "signer_contract (open_session a)"
  "readonly_contract (open_session a)" "isAvailable (open_session a)"
  "tx_accepted (open_session a) k v" "account (open_session a) = a"
  by (simp_all add: open_session_def)

lemma read_keys_Done:
  assumes "submitRecord env form now_id rnd now_ts st = (Done, st')"
  shows "\<exists>xs. read_keys st = JArr xs \<and> read_keys st' = JArr (xs @ [JStr (make_recordId now_id rnd)])"
proof -
  from submitRecord_Done [OF assms] obtain xs where
    xs: "read_keys st = JArr xs" and
    st': "st' = (st(record_key (make_recordId now_id rnd) :=
                       to_bytes (build_recordData env form now_ts)))
                 (''training_keys'' := to_bytes (JArr (xs @ [JStr (make_recordId now_id rnd)])))"
    by blast
  have "wf_json (JArr xs)" using read_keys_wf [of st] xs by simp
  then have "wf_json (JArr (xs @ [JStr (make_recordId now_id rnd)]))" by simp
  then have "read_keys st' = JArr (xs @ [JStr (make_recordId now_id rnd)])"
    unfolding st' by (rule read_keys_written)
  with xs show ?thesis by blast
qed

lemma submit_all_succeeds:
  assumes "provider env" "signer_contract env" "\<And>k v. tx_accepted env k v"
  shows "read_keys st = JArr xs \<Longrightarrow> \<exists>st'. submit_all env subs st = Some st'"
proof (induction subs arbitrary: st xs)
  case Nil
  then show ?case by simp
next
  case (Cons s subs)
  obtain form now_id rnd now_ts where s: "s = (form, now_id, rnd, now_ts)"
    by (cases s) auto
  have "fst (submitRecord env form now_id rnd now_ts st) = Done"
    using assms Cons.prems by (rule submitRecord_succeeds)
  then obtain st1 where one: "submitRecord env form now_id rnd now_ts st = (Done, st1)"
    by (cases "submitRecord env form now_id rnd now_ts st") auto
  from read_keys_Done [OF one] obtain ys where "read_keys st1 = JArr ys" by blast
  from Cons.IH [OF this] one s show ?case by simp
qed


lemma set_status_succeeds:
  assumes "provider env" "signer_contract env" "\<And>k v. tx_accepted env k v"
    and "parse_bytes (getData st (record_key recordId)) = Inr old"
  shows "set_status s env recordId st =
           (Done, st(record_key recordId :=
                       to_bytes (JObj (obj_put (spread old) ''status'' (JStr s)))))"
proof -
  have "getData st (record_key recordId) \<noteq> []" using assms(4) parse_bytes_Nil by auto
  with assms show ?thesis by (simp add: set_status_def Let_def setData_def)
qed

lemma demo_store_c:
  "parse_bytes (getData demo_store (record_key ''c'')) =
     Inr (JObj [(''timestamp'', JNum 9), (''status'', JStr ''pending'')])"
  by (simp add: demo_store_def getData_def record_key_def parse_bytes_to_bytes)





lemma parseInt_150: "parseInt ''150'' = Some 150" "parseInt ''-5'' = Some (- 5)"
  by (simp_all add: parseInt_def is_js_space_def radix_digit_def Let_def)

section \<open>The platform functions on sample inputs\<close>

lemma JSON_parse_examples:
  \<open>JSON_parse ''{"a": [1, -20, true, null, "xy"], "b": {}}'' =
     Some (JObj [(''a'', JArr [JNum 1, JNum (- 20), JBool True, JNull, JStr ''xy'']),
                 (''b'', JObj [])])\<close>
  \<open>JSON_parse ''["5-ab","6-cd"]'' = Some (JArr [JStr ''5-ab'', JStr ''6-cd''])\<close>
  \<open>JSON_parse ''{"k":1,"k":2}'' = Some (JObj [(''k'', JNum 2)])\<close>
  \<open>JSON_parse ''[1,]'' = None\<close>
  \<open>JSON_parse ''01'' = None\<close>
  \<open>JSON_parse ''nul'' = None\<close>
  \<open>JSON_parse '''' = None\<close>
  by code_simp+

lemma JSON_stringify_example:
  \<open>JSON_stringify (JObj [(''status'', JStr ''pending''), (''cognitiveScore'', JNum 85)]) =
     ''{"status":"pending","cognitiveScore":85}''\<close>
  by code_simp

lemma btoa_examples: "btoa ''Man'' = ''TWFu''" "btoa ''Ma'' = ''TWE=''" "btoa ''M'' = ''TQ==''"
  by code_simp+

lemma to_string_examples:
  "to_string (JArr [JNum 1, JNull, JArr [JStr ''a'', JBool True], JObj []]) =
     Some ''1,,a,true,[object Object]''"
  "to_string (JObj [(''toString'', JNum 1)]) = None"
  by code_simp+

lemma parseInt_more:
  "parseInt ''  42px'' = Some 42" "parseInt ''0x1F'' = Some 31" "parseInt ''12.5'' = Some 12"
  "parseInt ''1e3'' = Some 1" "parseInt ''-0'' = Some 0" "parseInt ''+'' = None"
  by code_simp+

lemma JSON_escape_examples:
  "JSON_parse [CHR 0x22, CHR ''x'', CHR 0x5C, CHR ''n'', CHR 0x22] = Some (JStr [CHR ''x'', CHR 0x0A])"
  "JSON_parse [CHR 0x22, CHR 0x5C, CHR ''u'', CHR ''0'', CHR ''0'', CHR ''4'', CHR ''1'', CHR 0x22] =
     Some (JStr ''A'')"
  "JSON_stringify (JStr [CHR ''x'', CHR 0x0A, CHR 0x01]) =
     [CHR 0x22, CHR ''x'', CHR 0x5C, CHR ''n'', CHR 0x5C, CHR ''u'', CHR ''0'', CHR ''0'', CHR ''0'',
      CHR ''1'', CHR 0x22]"
  by code_simp+

lemma index_bytes_example:
  \<open>to_bytes (JArr [JStr (make_recordId 5 ''ab''), JStr (make_recordId 6 ''cd'')]) = ''["5-ab","6-cd"]''\<close>
  by code_simp


section \<open>The claims\<close>

text \<open>
  C1. The plan is a function of the score alone: below 40 it is the Basic plan, from 40
  to 69 the Intermediate plan, from 70 on the Advanced plan; 39, 40, 69 and 70 sit on
  the sides of the two thresholds as stated.
\<close>

theorem C1_plan_of_score:
  "(score < 40 \<longrightarrow> derive_plan score = ''Basic Cognitive Enhancement'') \<and>
   (40 \<le> score \<and> score \<le> 69 \<longrightarrow> derive_plan score = ''Intermediate Brain Training'') \<and>
   (70 \<le> score \<longrightarrow> derive_plan score = ''Advanced Neural Development'') \<and>
   derive_plan 39 = ''Basic Cognitive Enhancement'' \<and>
   derive_plan 40 = ''Intermediate Brain Training'' \<and>
   derive_plan 69 = ''Intermediate Brain Training'' \<and>
   derive_plan 70 = ''Advanced Neural Development''"
  by (simp add: derive_plan_def)

theorem C1_plan_of_score_witness:
  "(12::int) < 40 \<and> derive_plan 12 = ''Basic Cognitive Enhancement'' \<and>
   (40::int) \<le> 55 \<and> (55::int) \<le> 69 \<and> derive_plan 55 = ''Intermediate Brain Training'' \<and>
   (70::int) \<le> 93 \<and> derive_plan 93 = ''Advanced Neural Development''"
  using C1_plan_of_score [of 12] C1_plan_of_score [of 55] C1_plan_of_score [of 93]
  by simp







text \<open>
  C5. Index monotonicity. A submission that succeeds leaves an index that is the index
  before with the new id at its end; over a sequence of submissions that all succeed the
  index is the starting index followed by the ids of the submissions in order, so every
  id present before is still present and the length grows by the number of submissions.
\<close>

theorem C5_index_monotonic:
  "(submitRecord env form now_id rnd now_ts st = (Done, st') \<longrightarrow>
      index_ids st' = index_ids st @ [JStr (make_recordId now_id rnd)]) \<and>
   (submit_all env subs st = Some st'' \<longrightarrow>
      index_ids st'' = index_ids st @ map sub_id subs \<and>
      set (index_ids st) \<subseteq> set (index_ids st'') \<and>
      length (index_ids st'') = length (index_ids st) + length subs)"
  using index_ids_Done [of env form now_id rnd now_ts st st']
    index_ids_submit_all [of env subs st st'']
  by auto

theorem C5_index_monotonic_witness:
  "\<exists>st'. submit_all (open_session ''0xA'')
            [(demo_form, 5, ''ab'', 7000), (demo_form, 6, ''cd'', 8000)] (\<lambda>_. []) = Some st' \<and>
     index_ids st' = [JStr (make_recordId 5 ''ab''), JStr (make_recordId 6 ''cd'')]"
proof -
  let ?E = "open_session ''0xA''"
  let ?subs = "[(demo_form, 5, ''ab'', 7000), (demo_form, 6, ''cd'', 8000)]"
  obtain st' where s: "submit_all ?E ?subs (\<lambda>_. []) = Some st'"
    using submit_all_succeeds [of ?E "\<lambda>_. []" "[]" ?subs] read_keys_empty by auto
  have "index_ids (\<lambda>_. []) = []" by (simp add: index_ids_def read_keys_empty)
  with C5_index_monotonic [of ?E demo_form 5 "''ab''" 7000 "\<lambda>_. []" st' ?subs st'] s
  show ?thesis by simp
qed

text \<open>
  C6 (a defect of the code). The data model gives cognitiveScore the range 0..100, and the
  form asks for it (placeholder \<open>0-100\<close>, \<open>min="0"\<close>, \<open>max="100"\<close>), but
  \<open>submitRecord\<close> stores whatever nonzero integer \<open>parseInt\<close> reads, with no check
  of the range: the input 150 gives a record with cognitiveScore 150, which a successful
  submission writes and \<open>loadRecords\<close> reads back, and the input -5 gives -5.
\<close>

theorem C6_score_out_of_range:
  "submitted_score \<lparr> form_category = ''Memory'', form_cognitiveScore = ''150'',
                      form_trainingNotes = '''' \<rparr> = 150 \<and>
   submitted_score \<lparr> form_category = ''Memory'', form_cognitiveScore = ''-5'',
                      form_trainingNotes = '''' \<rparr> = - 5 \<and>
   (\<exists>st' r. submitRecord (open_session ''0xA'')
               \<lparr> form_category = ''Memory'', form_cognitiveScore = ''150'',
                 form_trainingNotes = '''' \<rparr> 5 ''ab'' 7000 (\<lambda>_. []) = (Done, st') \<and>
            load_record st' (JStr (make_recordId 5 ''ab'')) = Some r \<and>
            cognitiveScore r = JNum 150 \<and>
            \<not> (\<exists>n. cognitiveScore r = JNum n \<and> 0 \<le> n \<and> n \<le> 100))"
proof -
  let ?E = "open_session ''0xA''"
  let ?F = "\<lparr> form_category = ''Memory'', form_cognitiveScore = ''150'', form_trainingNotes = '''' \<rparr>"
  have s: "submitted_score ?F = 150" by (simp add: submitted_score_def parseInt_150)
  have "fst (submitRecord ?E ?F 5 ''ab'' 7000 (\<lambda>_. [])) = Done"
    by (rule submitRecord_succeeds [OF _ _ _ read_keys_empty]) simp_all
  then obtain st' where d: "submitRecord ?E ?F 5 ''ab'' 7000 (\<lambda>_. []) = (Done, st')"
    by (cases "submitRecord ?E ?F 5 ''ab'' 7000 (\<lambda>_. [])") auto
  from load_submitted [OF d] s
  have "\<exists>r. load_record st' (JStr (make_recordId 5 ''ab'')) = Some r \<and> cognitiveScore r = JNum 150"
    by (simp add: decode_build_recordData)
  then obtain r where r: "load_record st' (JStr (make_recordId 5 ''ab'')) = Some r"
    "cognitiveScore r = JNum 150" by blast
  then have "\<not> (\<exists>n. cognitiveScore r = JNum n \<and> 0 \<le> n \<and> n \<le> 100)" by simp
  with d r have "\<exists>st' r. submitRecord ?E ?F 5 ''ab'' 7000 (\<lambda>_. []) = (Done, st') \<and>
            load_record st' (JStr (make_recordId 5 ''ab'')) = Some r \<and>
            cognitiveScore r = JNum 150 \<and>
            \<not> (\<exists>n. cognitiveScore r = JNum n \<and> 0 \<le> n \<and> n \<le> 100)"
    by blast
  with s show ?thesis by (simp add: submitted_score_def parseInt_150)
qed

text \<open>
  C7. Frame property of the status transitions. When \<open>activateTraining\<close> succeeds, it
  has assigned one key, that of the record, and no other key has changed; the bytes under
  that key parsed before and parse after, the new value has status \<open>active\<close>, and its
  data, timestamp, owner, category, cognitiveScore and trainingPlan are those of the old
  value, so that the decoded record differs in its status only. The same holds for
  \<open>completeTraining\<close> with status \<open>completed\<close>. In a session where every step goes
  through, both succeed on every record whose bytes parse, writing the members of the old
  value with the status replaced.
\<close>

theorem C7_status_frame:
  "(activateTraining env recordId st = (Done, st') \<longrightarrow>
      (\<exists>b. st' = st(record_key recordId := b)) \<and>
      (\<forall>k. k \<noteq> record_key recordId \<longrightarrow> getData st' k = getData st k) \<and>
      (\<exists>old new.
         parse_bytes (getData st (record_key recordId)) = Inr old \<and>
         parse_bytes (getData st' (record_key recordId)) = Inr new \<and>
         get_field new ''status'' = Some (JStr ''active'') \<and>
         (\<forall>f \<in> {''data'', ''timestamp'', ''owner'', ''category'', ''cognitiveScore'',
                 ''trainingPlan''}. get_field new f = get_field old f) \<and>
         (\<forall>key. decode_record key new = (decode_record key old)\<lparr>status := JStr ''active''\<rparr>))) \<and>
   (completeTraining env recordId st = (Done, st') \<longrightarrow>
      (\<exists>b. st' = st(record_key recordId := b)) \<and>
      (\<forall>k. k \<noteq> record_key recordId \<longrightarrow> getData st' k = getData st k) \<and>
      (\<exists>old new.
         parse_bytes (getData st (record_key recordId)) = Inr old \<and>
         parse_bytes (getData st' (record_key recordId)) = Inr new \<and>
         get_field new ''status'' = Some (JStr ''completed'') \<and>
         (\<forall>f \<in> {''data'', ''timestamp'', ''owner'', ''category'', ''cognitiveScore'',
                 ''trainingPlan''}. get_field new f = get_field old f) \<and>
         (\<forall>key. decode_record key new = (decode_record key old)\<lparr>status := JStr ''completed''\<rparr>))) \<and>
   (provider env \<and> signer_contract env \<and> (\<forall>k val. tx_accepted env k val) \<and>
    parse_bytes (getData st (record_key recordId)) = Inr old \<longrightarrow>
      activateTraining env recordId st =
        (Done, st(record_key recordId :=
                    to_bytes (JObj (obj_put (spread old) ''status'' (JStr ''active''))))) \<and>
      completeTraining env recordId st =
        (Done, st(record_key recordId :=
                    to_bytes (JObj (obj_put (spread old) ''status'' (JStr ''completed''))))))"
proof (intro conjI impI)
  assume "activateTraining env recordId st = (Done, st')"
  then have a: "set_status ''active'' env recordId st = (Done, st')"
    by (simp add: activateTraining_def)
  from set_status_Done [OF a]
  show "\<exists>b. st' = st(record_key recordId := b)" by blast
  from set_status_frame [OF a]
  show "\<forall>k. k \<noteq> record_key recordId \<longrightarrow> getData st' k = getData st k" by blast
  from set_status_frame [OF a]
  show "\<exists>old new.
         parse_bytes (getData st (record_key recordId)) = Inr old \<and>
         parse_bytes (getData st' (record_key recordId)) = Inr new \<and>
         get_field new ''status'' = Some (JStr ''active'') \<and>
         (\<forall>f \<in> {''data'', ''timestamp'', ''owner'', ''category'', ''cognitiveScore'',
                 ''trainingPlan''}. get_field new f = get_field old f) \<and>
         (\<forall>key. decode_record key new = (decode_record key old)\<lparr>status := JStr ''active''\<rparr>)"
    by (elim conjE exE) (intro exI conjI; simp)
next
  assume "completeTraining env recordId st = (Done, st')"
  then have a: "set_status ''completed'' env recordId st = (Done, st')"
    by (simp add: completeTraining_def)
  from set_status_Done [OF a]
  show "\<exists>b. st' = st(record_key recordId := b)" by blast
  from set_status_frame [OF a]
  show "\<forall>k. k \<noteq> record_key recordId \<longrightarrow> getData st' k = getData st k" by blast
  from set_status_frame [OF a]
  show "\<exists>old new.
         parse_bytes (getData st (record_key recordId)) = Inr old \<and>
         parse_bytes (getData st' (record_key recordId)) = Inr new \<and>
         get_field new ''status'' = Some (JStr ''completed'') \<and>
         (\<forall>f \<in> {''data'', ''timestamp'', ''owner'', ''category'', ''cognitiveScore'',
                 ''trainingPlan''}. get_field new f = get_field old f) \<and>
         (\<forall>key. decode_record key new = (decode_record key old)\<lparr>status := JStr ''completed''\<rparr>)"
    by (elim conjE exE) (intro exI conjI; simp)
next
  assume c: "provider env \<and> signer_contract env \<and> (\<forall>k val. tx_accepted env k val) \<and>
    parse_bytes (getData st (record_key recordId)) = Inr old"
  then show "activateTraining env recordId st =
        (Done, st(record_key recordId :=
                    to_bytes (JObj (obj_put (spread old) ''status'' (JStr ''active'')))))"
    unfolding activateTraining_def by (intro set_status_succeeds) auto
  from c show "completeTraining env recordId st =
        (Done, st(record_key recordId :=
                    to_bytes (JObj (obj_put (spread old) ''status'' (JStr ''completed'')))))"
    unfolding completeTraining_def by (intro set_status_succeeds) auto
qed

theorem C7_status_frame_witness:
  "(\<exists>st'. activateTraining (open_session ''0xA'') ''c'' demo_store = (Done, st') \<and>
      getData st' ''training_keys'' = getData demo_store ''training_keys'' \<and>
      (\<exists>new. parse_bytes (getData st' (record_key ''c'')) = Inr new \<and>
         get_field new ''status'' = Some (JStr ''active'') \<and>
         get_field new ''timestamp'' = Some (JNum 9))) \<and>
   (\<exists>st'. completeTraining (open_session ''0xA'') ''c'' demo_store = (Done, st') \<and>
      getData st' ''training_keys'' = getData demo_store ''training_keys'' \<and>
      (\<exists>new. parse_bytes (getData st' (record_key ''c'')) = Inr new \<and>
         get_field new ''status'' = Some (JStr ''completed'') \<and>
         get_field new ''timestamp'' = Some (JNum 9)))"
proof -
  let ?E = "open_session ''0xA''"
  let ?old = "JObj [(''timestamp'', JNum 9), (''status'', JStr ''pending'')]"
  note S = C7_status_frame [where env = ?E and recordId = "''c''" and st = demo_store
      and old = ?old, THEN conjunct2, THEN conjunct2]
  from S demo_store_c obtain sa sc where
    a: "activateTraining ?E ''c'' demo_store = (Done, sa)" and
    c: "completeTraining ?E ''c'' demo_store = (Done, sc)"
    by simp
  have k: "''training_keys'' \<noteq> record_key ''c''" by (simp add: record_key_def)
  have ts: "get_field ?old ''timestamp'' = Some (JNum 9)"
    by (simp add: get_field_def)
  from C7_status_frame [where env = ?E and recordId = "''c''" and st = demo_store
      and old = ?old and st' = sa, THEN conjunct1] a k demo_store_c ts
  have 1: "getData sa ''training_keys'' = getData demo_store ''training_keys'' \<and>
      (\<exists>new. parse_bytes (getData sa (record_key ''c'')) = Inr new \<and>
         get_field new ''status'' = Some (JStr ''active'') \<and>
         get_field new ''timestamp'' = Some (JNum 9))"
    by auto
  from C7_status_frame [where env = ?E and recordId = "''c''" and st = demo_store
      and old = ?old and st' = sc, THEN conjunct2, THEN conjunct1] c k demo_store_c ts
  have 2: "getData sc ''training_keys'' = getData demo_store ''training_keys'' \<and>
      (\<exists>new. parse_bytes (getData sc (record_key ''c'')) = Inr new \<and>
         get_field new ''status'' = Some (JStr ''completed'') \<and>
         get_field new ''timestamp'' = Some (JNum 9))"
    by auto
  from a c 1 2 show ?thesis by blast
qed

text \<open>
  C8. Error atomicity. When the bytes stored for an id are empty, \<open>activateTraining\<close>
  and \<open>completeTraining\<close> do not succeed and leave the storage as it was; with a
  connected wallet and a signer contract, both fail with the error
  \<open>Record not found\<close>.
\<close>

theorem C8_record_not_found:
  "(getData st (record_key recordId) = [] \<longrightarrow>
      snd (activateTraining env recordId st) = st \<and>
      snd (completeTraining env recordId st) = st \<and>
      fst (activateTraining env recordId st) \<noteq> Done \<and>
      fst (completeTraining env recordId st) \<noteq> Done) \<and>
   (getData st (record_key recordId) = [] \<and> provider env \<and> signer_contract env \<longrightarrow>
      activateTraining env recordId st = (Failed (Error ''Record not found''), st) \<and>
      completeTraining env recordId st = (Failed (Error ''Record not found''), st))"
  by (simp add: activateTraining_def completeTraining_def set_status_def)

theorem C8_record_not_found_witness:
  "getData (\<lambda>_. []) (record_key ''17-x'') = [] \<and>
   activateTraining (open_session ''0xA'') ''17-x'' (\<lambda>_. []) =
     (Failed (Error ''Record not found''), \<lambda>_. []) \<and>
   completeTraining (open_session ''0xA'') ''17-x'' (\<lambda>_. []) =
     (Failed (Error ''Record not found''), \<lambda>_. [])"
  using C8_record_not_found [of "\<lambda>_. []" "''17-x''" "open_session ''0xA''"]
  by (simp add: getData_def open_session_def)

text \<open>
  C9. Default score. When \<open>parseInt\<close> of the score input is NaN or 0 (the input is
  empty, not numeric, or reads as zero), the record is built with cognitiveScore 50 and
  the Intermediate plan; the stored cognitiveScore is never 0; and the record loaded
  after a successful submission has this score and plan.
\<close>

theorem C9_default_score:
  "(parseInt (form_cognitiveScore form) = None \<or> parseInt (form_cognitiveScore form) = Some 0 \<longrightarrow>
      submitted_score form = 50 \<and>
      get_field (build_recordData env form now) ''cognitiveScore'' = Some (JNum 50) \<and>
      get_field (build_recordData env form now) ''trainingPlan'' =
        Some (JStr ''Intermediate Brain Training'')) \<and>
   (form_cognitiveScore form \<in> {'''', ''abc'', ''0''} \<longrightarrow> submitted_score form = 50) \<and>
   get_field (build_recordData env form now) ''cognitiveScore'' \<noteq> Some (JNum 0) \<and>
   (submitRecord env form now_id rnd now st = (Done, st') \<longrightarrow>
      (\<exists>r. load_record st' (JStr (make_recordId now_id rnd)) = Some r \<and>
           cognitiveScore r = JNum (submitted_score form) \<and>
           trainingPlan r = JStr (derive_plan (submitted_score form))))"
proof (intro conjI impI)
  assume a: "parseInt (form_cognitiveScore form) = None \<or> parseInt (form_cognitiveScore form) = Some 0"
  then show s: "submitted_score form = 50" by (auto simp: submitted_score_def)
  then show "get_field (build_recordData env form now) ''cognitiveScore'' = Some (JNum 50)"
    by (simp add: build_recordData_def get_field_def)
  from s show "get_field (build_recordData env form now) ''trainingPlan'' =
        Some (JStr ''Intermediate Brain Training'')"
    by (simp add: build_recordData_def get_field_def derive_plan_def)
next
  assume "form_cognitiveScore form \<in> {'''', ''abc'', ''0''}"
  then show "submitted_score form = 50"
    using parseInt_examples by (auto simp: submitted_score_def)
next
  show "get_field (build_recordData env form now) ''cognitiveScore'' \<noteq> Some (JNum 0)"
    by (simp add: build_recordData_def get_field_def Let_def submitted_score_nonzero)
next
  assume "submitRecord env form now_id rnd now st = (Done, st')"
  from load_submitted [OF this]
  show "\<exists>r. load_record st' (JStr (make_recordId now_id rnd)) = Some r \<and>
           cognitiveScore r = JNum (submitted_score form) \<and>
           trainingPlan r = JStr (derive_plan (submitted_score form))"
    by (simp add: decode_build_recordData)
qed

theorem C9_default_score_witness:
  "parseInt ''0'' = Some 0 \<and>
   submitted_score \<lparr> form_category = ''Memory'', form_cognitiveScore = ''0'',
                      form_trainingNotes = '''' \<rparr> = 50 \<and>
   get_field (build_recordData (open_session ''0xA'')
        \<lparr> form_category = ''Memory'', form_cognitiveScore = ''0'', form_trainingNotes = '''' \<rparr> 7000)
      ''trainingPlan'' = Some (JStr ''Intermediate Brain Training'')"
  using C9_default_score [of "\<lparr> form_category = ''Memory'', form_cognitiveScore = ''0'',
                      form_trainingNotes = '''' \<rparr>" "open_session ''0xA''" 7000]
    parseInt_examples(3)
  by simp

text \<open>
  C10. \<open>calculateTrainingIntensity(score)\<close> returns exactly \<open>100 - score\<close> for every
  score up to 100, so \<open>generatePlan\<close> stores as the recommendation of the request's
  result 100 minus each of the four decrypted scores; a decrypted score above 100 makes the
  checked subtraction underflow, and \<open>generatePlan\<close> reverts.
\<close>

theorem C10_training_intensity:
  fixes a b c d :: uint32
  shows
  "(score \<le> 100 \<longrightarrow>
      calculateTrainingIntensity score = Inr (100 - score) \<and>
      unat (100 - score) = 100 - unat score) \<and>
   (100 < score \<longrightarrow> calculateTrainingIntensity score = Inl (Panic 0x11)) \<and>
   (requestToResultId s requestId \<noteq> 0 \<and> trainingPlanCount s \<noteq> - 1 \<and>
    a \<le> 100 \<and> b \<le> 100 \<and> c \<le> 100 \<and> d \<le> 100 \<longrightarrow>
      (\<exists>s'. generatePlan requestId True (a # b # c # d # rest) s = Inr s' \<and>
         recommendations s' (requestToResultId s requestId) =
           \<lparr> memoryTraining = 100 - a, attentionTraining = 100 - b,
             processingTraining = 100 - c, flexibilityTraining = 100 - d,
             isGenerated = True \<rparr>)) \<and>
   (requestToResultId s requestId \<noteq> 0 \<and>
    (100 < a \<or> 100 < b \<or> 100 < c \<or> 100 < d) \<longrightarrow>
      generatePlan requestId True (a # b # c # d # rest) s = Inl (Panic 0x11)) \<and>
   ((\<exists>i < 4. i < length results \<and> 100 < results ! i) \<longrightarrow>
      (\<exists>e. generatePlan requestId sigs_ok results s = Inl e))"
proof (intro conjI impI)
  assume "score \<le> 100"
  then show "calculateTrainingIntensity score = Inr (100 - score)"
    by (simp add: calculateTrainingIntensity_def not_less [symmetric])
next
  assume "score \<le> 100"
  then show "unat (100 - score) = 100 - unat score" by (simp add: unat_sub)
next
  assume "100 < score"
  then show "calculateTrainingIntensity score = Inl (Panic 0x11)"
    by (simp add: calculateTrainingIntensity_def)
next
  assume "requestToResultId s requestId \<noteq> 0 \<and> trainingPlanCount s \<noteq> - 1 \<and>
    a \<le> 100 \<and> b \<le> 100 \<and> c \<le> 100 \<and> d \<le> 100"
  then show "\<exists>s'. generatePlan requestId True (a # b # c # d # rest) s = Inr s' \<and>
         recommendations s' (requestToResultId s requestId) =
           \<lparr> memoryTraining = 100 - a, attentionTraining = 100 - b,
             processingTraining = 100 - c, flexibilityTraining = 100 - d,
             isGenerated = True \<rparr>"
    by (simp add: generatePlan_def Let_def and_then_def index_u32_def
        calculateTrainingIntensity_def not_less [symmetric])
next
  assume "requestToResultId s requestId \<noteq> 0 \<and>
    (100 < a \<or> 100 < b \<or> 100 < c \<or> 100 < d)"
  then show "generatePlan requestId True (a # b # c # d # rest) s = Inl (Panic 0x11)"
    by (auto simp add: generatePlan_def Let_def and_then_def index_u32_def
        calculateTrainingIntensity_def)
next
  assume "\<exists>i < 4. i < length results \<and> 100 < results ! i"
  then obtain i where i: "i < 4" "i < length results" "100 < results ! i" by blast
  then have "i = 0 \<or> i = 1 \<or> i = 2 \<or> i = 3" by arith
  with i show "\<exists>e. generatePlan requestId sigs_ok results s = Inl e"
    by (auto simp add: generatePlan_def Let_def and_then_def index_u32_def
        calculateTrainingIntensity_def split: sum.splits)
qed

theorem C10_training_intensity_witness:
  "calculateTrainingIntensity 30 = Inr 70 \<and>
   calculateTrainingIntensity 101 = Inl (Panic 0x11) \<and>
   (\<exists>s'. generatePlan 7 True [10, 20, 30, 100]
            \<lparr> trainingPlanCount = 0, trainingPlans = Map.empty,
              recommendations = (\<lambda>_. \<lparr> memoryTraining = 0, attentionTraining = 0,
                 processingTraining = 0, flexibilityTraining = 0, isGenerated = False \<rparr>),
              requestToResultId = (\<lambda>r. if r = 7 then 1 else 0) \<rparr> = Inr s' \<and>
         recommendations s' 1 =
           \<lparr> memoryTraining = 90, attentionTraining = 80,
             processingTraining = 70, flexibilityTraining = 0, isGenerated = True \<rparr>) \<and>
   generatePlan 7 True [10, 20, 101, 100]
            \<lparr> trainingPlanCount = 0, trainingPlans = Map.empty,
              recommendations = (\<lambda>_. \<lparr> memoryTraining = 0, attentionTraining = 0,
                 processingTraining = 0, flexibilityTraining = 0, isGenerated = False \<rparr>),
              requestToResultId = (\<lambda>r. if r = 7 then 1 else 0) \<rparr> = Inl (Panic 0x11)"
  using C10_training_intensity [of 30 "\<lparr> trainingPlanCount = 0, trainingPlans = Map.empty,
              recommendations = (\<lambda>_. \<lparr> memoryTraining = 0, attentionTraining = 0,
                 processingTraining = 0, flexibilityTraining = 0, isGenerated = False \<rparr>),
              requestToResultId = (\<lambda>r. if r = 7 then 1 else 0) \<rparr>" 7 10 20 30 100 "[]"]
    C10_training_intensity [of 101 "\<lparr> trainingPlanCount = 0, trainingPlans = Map.empty,
              recommendations = (\<lambda>_. \<lparr> memoryTraining = 0, attentionTraining = 0,
                 processingTraining = 0, flexibilityTraining = 0, isGenerated = False \<rparr>),
              requestToResultId = (\<lambda>r. if r = 7 then 1 else 0) \<rparr>" 7 10 20 101 100 "[]"]
  by simp

end
